theory Spec2Isabelle
  imports Complex_Main
begin

section \<open>Strings\<close>

text \<open>
  A JavaScript string is modelled as a \<open>string\<close> holding its UTF-8 bytes. The pieces of
  the source's literals that are not ASCII are kept as named constants holding the bytes
  the source file stores at that place; \<open>toUpperCase\<close> and \<open>trim\<close> act on the ASCII
  range, which covers every enum constant the rules compare against.
\<close>

definition glyph_dash :: string where
  "glyph_dash = [CHR 0xE2, CHR 0x80, CHR 0x9A, CHR 0xC3, CHR 0x84, CHR 0xC3, CHR 0xAE]"

definition glyph_fulfilled :: string where
  "glyph_fulfilled = [CHR 0xE2, CHR 0x80, CHR 0x9A, CHR 0xC3, CHR 0xBA, CHR 0xC3, CHR 0x96]"

definition glyph_pending :: string where
  "glyph_pending = [CHR 0xE2, CHR 0x80, CHR 0x9A, CHR 0xC3, CHR 0xA8, CHR 0xE2, CHR 0x89, CHR 0xA5]"

definition glyph_need_to_arrange :: string where
  "glyph_need_to_arrange =
     [CHR 0xEF, CHR 0xA3, CHR 0xBF, CHR 0xC3, CHR 0xBC, CHR 0xC3, CHR 0x9F, CHR 0xC2, CHR 0xA9]"

definition glyph_arranged :: string where
  "glyph_arranged =
     [CHR 0xEF, CHR 0xA3, CHR 0xBF, CHR 0xC3, CHR 0xBC, CHR 0xC3, CHR 0xB5, CHR 0xE2, CHR 0x80,
      CHR 0xA0, CHR 0xC3, CHR 0x94, CHR 0xE2, CHR 0x88, CHR 0x8F, CHR 0xC3, CHR 0xA8]"

definition glyph_incoming :: string where
  "glyph_incoming =
     [CHR 0xEF, CHR 0xA3, CHR 0xBF, CHR 0xC3, CHR 0xBC, CHR 0xC3, CHR 0xAC, CHR 0xC2, CHR 0xB6]"

definition glyph_ready :: string where
  "glyph_ready =
     [CHR 0xEF, CHR 0xA3, CHR 0xBF, CHR 0xC3, CHR 0xBC, CHR 0xC3, CHR 0xAC, CHR 0xC3, CHR 0xBB]"

definition glyph_later :: string where
  "glyph_later =
     [CHR 0xE2, CHR 0x80, CHR 0x9A, CHR 0xC3, CHR 0xA8, CHR 0xE2, CHR 0x89, CHR 0xA4, CHR 0xC3,
      CHR 0x94, CHR 0xE2, CHR 0x88, CHR 0x8F, CHR 0xC3, CHR 0xA8]"

definition glyph_apostrophe :: string where
  "glyph_apostrophe = [CHR 0xE2, CHR 0x80, CHR 0x9A, CHR 0xC3, CHR 0x84, CHR 0xC3, CHR 0xB4]"

definition glyph_follow_up :: string where
  "glyph_follow_up =
     [CHR 0xE2, CHR 0x80, CHR 0x9A, CHR 0xC3, CHR 0xB6, CHR 0xE2, CHR 0x80, CHR 0xA0, CHR 0xC3,
      CHR 0x94, CHR 0xE2, CHR 0x88, CHR 0x8F, CHR 0xC3, CHR 0xA8]"

definition glyph_reserved :: string where
  "glyph_reserved =
     [CHR 0xEF, CHR 0xA3, CHR 0xBF, CHR 0xC3, CHR 0xBC, CHR 0xC3, CHR 0xA8, CHR 0xE2, CHR 0x88,
      CHR 0x91, CHR 0xC3, CHR 0x94, CHR 0xE2, CHR 0x88, CHR 0x8F, CHR 0xC3, CHR 0xA8]"

definition glyph_return :: string where
  "glyph_return =
     [CHR 0xE2, CHR 0x80, CHR 0x9A, CHR 0xC3, CHR 0x9C, CHR 0xC2, CHR 0xA9, CHR 0xC3, CHR 0x94,
      CHR 0xE2, CHR 0x88, CHR 0x8F, CHR 0xC3, CHR 0xA8]"

definition glyph_info :: string where
  "glyph_info =
     [CHR 0xE2, CHR 0x80, CHR 0x9A, CHR 0xC3, CHR 0x91, CHR 0xCF, CHR 0x80, CHR 0xC3, CHR 0x94,
      CHR 0xE2, CHR 0x88, CHR 0x8F, CHR 0xC3, CHR 0xA8]"

definition glyph_bullet :: string where
  "glyph_bullet = [CHR 0xE2, CHR 0x80, CHR 0x9A, CHR 0xC3, CHR 0x84, CHR 0xC2, CHR 0xA2]"

definition is_lower :: "char \<Rightarrow> bool" where
  "is_lower c = (97 \<le> (of_char c :: nat) \<and> (of_char c :: nat) \<le> 122)"

definition is_upper :: "char \<Rightarrow> bool" where
  "is_upper c = (65 \<le> (of_char c :: nat) \<and> (of_char c :: nat) \<le> 90)"

definition is_digit :: "char \<Rightarrow> bool" where
  "is_digit c = (48 \<le> (of_char c :: nat) \<and> (of_char c :: nat) \<le> 57)"

definition is_space :: "char \<Rightarrow> bool" where
  "is_space c = ((of_char c :: nat) \<in> {9, 10, 11, 12, 13, 32})"

definition upper_char :: "char \<Rightarrow> char" where
  "upper_char c = (if is_lower c then char_of ((of_char c :: nat) - 32) else c)"

definition toUpperCase :: "string \<Rightarrow> string" where
  "toUpperCase s = map upper_char s"

definition trim :: "string \<Rightarrow> string" where
  "trim s = rev (dropWhile is_space (rev (dropWhile is_space s)))"

fun join :: "string \<Rightarrow> string list \<Rightarrow> string" where
  "join sep [] = []"
| "join sep [x] = x"
| "join sep (x # y # ys) = x @ sep @ join sep (y # ys)"

text \<open>\<open>a || b\<close> on an optional string: the left operand unless it is missing or empty.\<close>

definition or_else :: "string option \<Rightarrow> string \<Rightarrow> string" where
  "or_else a b = (case a of None \<Rightarrow> b | Some s \<Rightarrow> if s = [] then b else s)"

section \<open>Numbers\<close>

text \<open>
  Timestamps are epoch milliseconds, the value \<open>new Date(iso).getTime()\<close> reads from a
  well-formed ISO date. Elapsed weeks are computed in exact rational arithmetic.
\<close>

type_synonym timestamp = int

definition Math_round :: "rat \<Rightarrow> int" where
  "Math_round x = \<lfloor>x + 1 / 2\<rfloor>"

fun digits_of :: "nat \<Rightarrow> string" where
  "digits_of n =
     (if n < 10 then [char_of (48 + n)]
      else digits_of (n div 10) @ [char_of (48 + n mod 10)])"

declare digits_of.simps [simp del]

text \<open>Number to string, for the numbers with at most one decimal that \<open>weeksSince\<close> returns.\<close>

definition number_to_string :: "rat \<Rightarrow> string" where
  "number_to_string w =
     (let k = \<lfloor>w * 10\<rfloor>; m = nat \<bar>k\<bar> in
        (if k < 0 then ''-'' else '''') @ digits_of (m div 10) @
        (if m mod 10 = 0 then '''' else ''.'' @ digits_of (m mod 10)))"

section \<open>Order records\<close>

record metafield =
  mf_value :: "string option"

record fulfillment =
  createdAt :: "timestamp option"
  f_status :: "string option"

record customer =
  displayName :: "string option"

record order =
  order_id :: "string option"
  name :: "string option"
  displayFulfillmentStatus :: "string option"
  fulfillments :: "fulfillment list"
  customer :: "customer option"
  weeksSinceOrder :: "metafield option"
  arrangeStatus :: "metafield option"
  arrangedWith :: "metafield option"
  incoming :: "metafield option"
  reserveIncoming :: "metafield option"
  readyToContact :: "metafield option"
  needsFollowUp :: "metafield option"
  followUpNotes :: "metafield option"
  owesReturn :: "metafield option"
  returnNotes :: "metafield option"
  invoicedWith :: "metafield option"

record config =
  SHOPIFY_DOMAIN :: string
  LOCK_CHANNEL :: "string option"

section \<open>Order fetcher\<close>

text \<open>
  \<open>getOrderByName\<close> (lines 61-82). Its input is what the two awaited calls of the
  transport give: \<open>await fetch(...)\<close> either rejects or resolves to a response with a
  status flag and code, and \<open>await resp.json()\<close> either rejects (the body is not JSON)
  or resolves to the decoded value, which is \<open>null\<close>, an object, or another JSON value
  (a number, a string, a boolean, an array), on which every property read is undefined.
  Every optional level of \<open>data?.data?.orders?.edges?.[0]\<close> is an \<open>option\<close>; an
  edge carries its node, which the backend's schema declares non-null.
\<close>

type_synonym gql_error = string

record edge =
  node :: order

record orders_connection =
  edges :: "edge list option"

record gql_data =
  data_errors :: "gql_error list option"
  orders :: "orders_connection option"

record gql_body =
  errors :: "gql_error list option"
  data :: "gql_data option"

datatype json_body = NotJson | JsonNull | JsonOther | JsonObject gql_body

record response =
  ok :: bool
  status :: nat
  body :: json_body

datatype transport = Rejected | Responded response

text \<open>
  What can be thrown: the rejection of \<open>fetch\<close>, the three \<open>throw\<close> statements, the
  SyntaxError of \<open>resp.json()\<close>, the TypeError of reading \<open>errors\<close> of \<open>null\<close>, and
  the rejection of \<open>client.chat.postMessage\<close>.
\<close>

datatype error =
    FetchRejected
  | ShopifyHTTP nat
  | BodySyntaxError
  | BodyTypeError
  | ShopifyGQLErrors "gql_error list"
  | ShopifyDataErrors "gql_error list"
  | PostRejected

text \<open>\<open>xs?.length\<close> as a condition: the list is there and not empty.\<close>

definition has_length :: "'a list option \<Rightarrow> bool" where
  "has_length xs = (case xs of None \<Rightarrow> False | Some l \<Rightarrow> l \<noteq> [])"

definition first_node :: "gql_body \<Rightarrow> order option" where
  "first_node b =
     (case data b of None \<Rightarrow> None
      | Some d \<Rightarrow> (case orders d of None \<Rightarrow> None
        | Some oc \<Rightarrow> (case edges oc of None \<Rightarrow> None
          | Some es \<Rightarrow> (case es of [] \<Rightarrow> None | e # _ \<Rightarrow> Some (node e)))))"

text \<open>Lines 78-81, on a decoded object.\<close>

definition order_of_body :: "gql_body \<Rightarrow> error + order option" where
  "order_of_body b =
     (if has_length (errors b) then Inl (ShopifyGQLErrors (the (errors b)))
      else if (case data b of None \<Rightarrow> False | Some d \<Rightarrow> has_length (data_errors d))
        then Inl (ShopifyDataErrors (the (data_errors (the (data b)))))
      else Inr (first_node b))"

definition getOrderByName :: "transport \<Rightarrow> error + order option" where
  "getOrderByName t =
     (case t of
        Rejected \<Rightarrow> Inl FetchRejected
      | Responded resp \<Rightarrow>
          if \<not> ok resp then Inl (ShopifyHTTP (status resp))
          else (case body resp of
                  NotJson \<Rightarrow> Inl BodySyntaxError
                | JsonNull \<Rightarrow> Inl BodyTypeError
                | JsonOther \<Rightarrow> Inr None
                | JsonObject b \<Rightarrow> order_of_body b))"

section \<open>Helpers\<close>

definition val :: "metafield option \<Rightarrow> string \<Rightarrow> string" where
  "val mf fallback =
     (case mf of None \<Rightarrow> fallback
      | Some m \<Rightarrow> (case mf_value m of None \<Rightarrow> fallback
        | Some s \<Rightarrow> (let v = trim s in if v \<noteq> [] then v else fallback)))"

definition isYes :: "string \<Rightarrow> string \<Rightarrow> bool" where
  "isYes s yes = (toUpperCase s = yes)"

definition isEq :: "string \<Rightarrow> string \<Rightarrow> bool" where
  "isEq s target = (toUpperCase s = toUpperCase target)"

definition weeksSince :: "timestamp \<Rightarrow> timestamp option \<Rightarrow> rat option" where
  "weeksSince now dateIso =
     (case dateIso of None \<Rightarrow> None
      | Some dt \<Rightarrow>
          (let ms = now - dt;
               weeks = of_int ms / (1000 * 60 * 60 * 24 * 7)
           in Some (of_int (Math_round (weeks * 10)) / 10)))"

definition mostRecentFulfillmentAt :: "order \<Rightarrow> timestamp option" where
  "mostRecentFulfillmentAt ord =
     (let dates = rev (sort (List.map_filter createdAt (fulfillments ord)))
      in case dates of [] \<Rightarrow> None | d # _ \<Rightarrow> Some d)"

definition last_segment :: "string \<Rightarrow> string" where
  "last_segment s = rev (takeWhile (\<lambda>c. c \<noteq> CHR ''/'') (rev s))"

definition adminOrderUrlFromGid :: "config \<Rightarrow> string option \<Rightarrow> string" where
  "adminOrderUrlFromGid cfg gid =
     (case gid of
        None \<Rightarrow> ''https://'' @ SHOPIFY_DOMAIN cfg @ ''/admin''
      | Some g \<Rightarrow>
          (let numericId = last_segment g
           in if numericId \<noteq> []
              then ''https://'' @ SHOPIFY_DOMAIN cfg @ ''/admin/orders/'' @ numericId
              else ''https://'' @ SHOPIFY_DOMAIN cfg @ ''/admin''))"

section \<open>Narrative rule engine\<close>

text \<open>The normalized attributes: the object \<open>mf\<close> of \<open>analyzeOrder\<close> (lines 135-147).\<close>

record attributes =
  mf_weeks :: string
  mf_arrangeStatus :: string
  mf_arrangedWith :: string
  mf_incoming :: string
  mf_reserveIncoming :: string
  mf_readyToContact :: string
  mf_needsFollowUp :: string
  mf_followUpNotes :: string
  mf_owesReturn :: string
  mf_returnNotes :: string
  mf_invoice :: string

definition normalize_attributes :: "order \<Rightarrow> attributes" where
  "normalize_attributes ord =
     \<lparr> mf_weeks = val (weeksSinceOrder ord) [],
       mf_arrangeStatus = toUpperCase (val (arrangeStatus ord) []),
       mf_arrangedWith = val (arrangedWith ord) [],
       mf_incoming = toUpperCase (val (incoming ord) []),
       mf_reserveIncoming = toUpperCase (val (reserveIncoming ord) []),
       mf_readyToContact = toUpperCase (val (readyToContact ord) []),
       mf_needsFollowUp = toUpperCase (val (needsFollowUp ord) []),
       mf_followUpNotes = val (followUpNotes ord) [],
       mf_owesReturn = toUpperCase (val (owesReturn ord) []),
       mf_returnNotes = val (returnNotes ord) [],
       mf_invoice = val (invoicedWith ord) [] \<rparr>"

record detail =
  d_label :: string
  d_value :: string

text \<open>
  The three locals the rules mutate (lines 151-153): the narrative \<open>blurb\<close>, the list
  \<open>details\<close> and the set \<open>detailsAdded\<close> of keys already used.
\<close>

record analysis =
  blurb :: "string list"
  details :: "detail list"
  detailsAdded :: "string set"

definition push_blurb :: "string \<Rightarrow> analysis \<Rightarrow> analysis" where
  "push_blurb line s = s\<lparr>blurb := blurb s @ [line]\<rparr>"

definition addDetail :: "string \<Rightarrow> string \<Rightarrow> string \<Rightarrow> analysis \<Rightarrow> analysis" where
  "addDetail key lbl v s =
     (if v = [] then s
      else if key \<in> detailsAdded s then s
      else s\<lparr>details := details s @ [\<lparr>d_label = lbl, d_value = v\<rparr>],
             detailsAdded := insert key (detailsAdded s)\<rparr>)"

definition line_fulfilled :: "rat option \<Rightarrow> string" where
  "line_fulfilled w =
     glyph_fulfilled @ '' Fulfilled '' @
     (case w of Some x \<Rightarrow> number_to_string x @ '' weeks ago'' | None \<Rightarrow> ''(date unavailable)'')
     @ ''.''"

definition line_not_fulfilled :: "string \<Rightarrow> string" where
  "line_not_fulfilled weeks =
     glyph_pending @ '' Not yet fulfilled ('' @
     (if weeks \<noteq> [] then weeks @ '' weeks open'' else ''age unknown'') @ '').''"

definition line_need_to_arrange :: string where
  "line_need_to_arrange =
     glyph_need_to_arrange @ '' Not yet arranged with supplier '' @ glyph_dash @
     '' check Follow-Up Notes for the reason.''"

definition line_arranged :: string where
  "line_arranged = glyph_arranged @ '' Arranged with supplier (not yet incoming).''"

definition line_partially_incoming :: string where
  "line_partially_incoming =
     glyph_incoming @
     '' Partially incoming: some items are on the way; others still arranged/not invoiced.''"

definition line_incoming :: string where
  "line_incoming =
     glyph_incoming @ '' Incoming from supplier '' @ glyph_dash @
     '' pending arrival & final QC.''"

definition line_ready_to_contact :: string where
  "line_ready_to_contact =
     glyph_ready @ '' Ready to contact customer (team should coordinate next steps).''"

definition line_contact_later :: string where
  "line_contact_later =
     glyph_later @ '' Contact later: items are here & passed QC, but it'' @ glyph_apostrophe @
     ''s not yet time to contact.''"

definition line_needs_follow_up :: string where
  "line_needs_follow_up =
     glyph_follow_up @ '' Needs follow-up '' @ glyph_dash @ '' see details for context.''"

definition line_reserved :: string where
  "line_reserved = glyph_reserved @ '' Reserved incoming inventory earmarked for this order.''"

definition line_owes_return :: string where
  "line_owes_return = glyph_return @ '' Customer owes a return.''"

definition line_no_exceptions :: string where
  "line_no_exceptions = glyph_info @ '' No exceptions detected.''"

text \<open>Lines 162-171: fulfilled or not.\<close>

definition rule_fulfillment ::
  "timestamp \<Rightarrow> order \<Rightarrow> attributes \<Rightarrow> bool \<Rightarrow> analysis \<Rightarrow> analysis" where
  "rule_fulfillment now ord mf isFulfilled s =
     (let fulfilledAt = mostRecentFulfillmentAt ord in
      if isFulfilled then
        (let w = weeksSince now fulfilledAt in
           addDetail ''invoice'' ''Invoiced With'' (mf_invoice mf)
             (push_blurb (line_fulfilled w) s))
      else push_blurb (line_not_fulfilled (mf_weeks mf)) s)"

text \<open>Lines 173-178: NEED TO ARRANGE.\<close>

definition rule_need_to_arrange :: "attributes \<Rightarrow> bool \<Rightarrow> analysis \<Rightarrow> analysis" where
  "rule_need_to_arrange mf isFulfilled s =
     (if isEq (mf_arrangeStatus mf) ''NEED TO ARRANGE'' then
        (let s1 = push_blurb line_need_to_arrange s;
             s2 = addDetail ''followUpNotes'' ''Follow-Up Notes'' (mf_followUpNotes mf) s1
         in if \<not> isFulfilled then addDetail ''weeks'' ''Weeks Since Order'' (mf_weeks mf) s2
            else s2)
      else s)"

text \<open>Lines 180-185: ARRANGED, not yet incoming.\<close>

definition rule_arranged :: "attributes \<Rightarrow> bool \<Rightarrow> analysis \<Rightarrow> analysis" where
  "rule_arranged mf isFulfilled s =
     (if isEq (mf_arrangeStatus mf) ''ARRANGED'' \<and> \<not> isYes (mf_incoming mf) ''INCOMING'' then
        (let s1 = push_blurb line_arranged s;
             s2 = addDetail ''arrangedWith'' ''Arranged With'' (mf_arrangedWith mf) s1
         in if \<not> isFulfilled then addDetail ''weeks'' ''Weeks Since Order'' (mf_weeks mf) s2
            else s2)
      else s)"

text \<open>Lines 187-198: INCOMING.\<close>

definition rule_incoming :: "attributes \<Rightarrow> bool \<Rightarrow> analysis \<Rightarrow> analysis" where
  "rule_incoming mf isFulfilled s =
     (if isYes (mf_incoming mf) ''INCOMING'' then
        (let alsoArranged = isEq (mf_arrangeStatus mf) ''ARRANGED'';
             s1 = (if alsoArranged then
                     addDetail ''followUpNotes'' ''Follow-Up Notes'' (mf_followUpNotes mf)
                       (push_blurb line_partially_incoming s)
                   else push_blurb line_incoming s);
             s2 = addDetail ''invoice'' ''Invoiced With'' (mf_invoice mf) s1
         in if \<not> isFulfilled then addDetail ''weeks'' ''Weeks Since Order'' (mf_weeks mf) s2
            else s2)
      else s)"

text \<open>Lines 200-208: READY TO CONTACT, else CONTACT LATER.\<close>

definition rule_contact :: "attributes \<Rightarrow> analysis \<Rightarrow> analysis" where
  "rule_contact mf s =
     (if isEq (mf_readyToContact mf) ''READY TO CONTACT'' then
        addDetail ''invoice'' ''Invoiced With'' (mf_invoice mf)
          (push_blurb line_ready_to_contact s)
      else if isEq (mf_readyToContact mf) ''CONTACT LATER'' then
        addDetail ''invoice'' ''Invoiced With'' (mf_invoice mf)
          (addDetail ''weeks'' ''Weeks Since Order'' (mf_weeks mf)
            (push_blurb line_contact_later s))
      else s)"

text \<open>Lines 210-214: NEEDS FOLLOW-UP.\<close>

definition rule_needs_follow_up :: "attributes \<Rightarrow> analysis \<Rightarrow> analysis" where
  "rule_needs_follow_up mf s =
     (if isEq (mf_needsFollowUp mf) ''NEEDS FOLLOW-UP'' then
        addDetail ''followUpNotes'' ''Follow-Up Notes'' (mf_followUpNotes mf)
          (push_blurb line_needs_follow_up s)
      else s)"

text \<open>Lines 216-220: RESERVED INCOMING INVENTORY.\<close>

definition rule_reserved :: "attributes \<Rightarrow> analysis \<Rightarrow> analysis" where
  "rule_reserved mf s =
     (if isEq (mf_reserveIncoming mf) ''RESERVED INCOMING INVENTORY'' then
        addDetail ''arrangedWith'' ''Arranged/Reserved With'' (mf_arrangedWith mf)
          (push_blurb line_reserved s)
      else s)"

text \<open>Lines 222-226: OWES RETURN.\<close>

definition rule_owes_return :: "attributes \<Rightarrow> analysis \<Rightarrow> analysis" where
  "rule_owes_return mf s =
     (if isEq (mf_owesReturn mf) ''OWES RETURN'' then
        addDetail ''returnNotes'' ''Return Notes'' (mf_returnNotes mf)
          (push_blurb line_owes_return s)
      else s)"

text \<open>Lines 228-230: the fallback line.\<close>

definition rule_no_exceptions :: "analysis \<Rightarrow> analysis" where
  "rule_no_exceptions s =
     (if length (blurb s) = 0 then push_blurb line_no_exceptions s else s)"

definition isFulfilled_of :: "order \<Rightarrow> bool" where
  "isFulfilled_of ord =
     (let dispFulfill = or_else (displayFulfillmentStatus ord) glyph_dash
      in toUpperCase (or_else (Some dispFulfill) []) = ''FULFILLED'')"

text \<open>
  The state of the three locals when \<open>analyzeOrder\<close> reaches its \<open>return\<close>; \<open>now\<close> is
  the clock reading of \<open>new Date()\<close> in \<open>weeksSince\<close>.
\<close>

definition analyzeOrder_locals :: "timestamp \<Rightarrow> order \<Rightarrow> analysis" where
  "analyzeOrder_locals now ord =
     (let mf = normalize_attributes ord;
          isFulfilled = isFulfilled_of ord;
          s0 = \<lparr>blurb = [], details = [], detailsAdded = {}\<rparr>;
          s1 = rule_fulfillment now ord mf isFulfilled s0;
          s2 = rule_need_to_arrange mf isFulfilled s1;
          s3 = rule_arranged mf isFulfilled s2;
          s4 = rule_incoming mf isFulfilled s3;
          s5 = rule_contact mf s4;
          s6 = rule_needs_follow_up mf s5;
          s7 = rule_reserved mf s6;
          s8 = rule_owes_return mf s7
      in rule_no_exceptions s8)"

record analysis_result =
  headerText :: string
  blurbLines :: "string list"
  details_out :: "detail list"
  footer :: "string list"

definition analyzeOrder :: "config \<Rightarrow> timestamp \<Rightarrow> order \<Rightarrow> analysis_result" where
  "analyzeOrder cfg now ord =
     (let name' = or_else (name ord) glyph_dash;
          customer' =
            or_else (case customer ord of None \<Rightarrow> None | Some c \<Rightarrow> displayName c) glyph_dash;
          headerText' = name' @ '' '' @ glyph_dash @ '' '' @ customer';
          s = analyzeOrder_locals now ord;
          adminUrl = adminOrderUrlFromGid cfg (order_id ord);
          footer' = [''<'' @ adminUrl @ ''|Open in Shopify Admin>'']
      in \<lparr> headerText = headerText', blurbLines = blurb s, details_out = details s,
           footer = footer' \<rparr>)"

section \<open>Identifier pattern\<close>

text \<open>
  \<open>ORDER_REGEX = /\bC#\d{4,5}\b/g\<close> (line 16) under \<open>text.matchAll\<close> (line 246).
  Without the \<open>u\<close> and \<open>i\<close> flags a word character is one of \<open>[A-Za-z0-9_]\<close> and
  \<open>\d\<close> is \<open>[0-9]\<close>. \<open>\b\<close> holds between two neighbours of which exactly one is a
  word character; the start and the end of the text count as non-word.
\<close>

definition is_word :: "char \<Rightarrow> bool" where
  "is_word c = (is_upper c \<or> is_lower c \<or> is_digit c \<or> c = CHR ''_'')"

definition is_word_opt :: "char option \<Rightarrow> bool" where
  "is_word_opt c = (case c of None \<Rightarrow> False | Some x \<Rightarrow> is_word x)"

definition word_boundary :: "char option \<Rightarrow> char option \<Rightarrow> bool" where
  "word_boundary a b = (is_word_opt a \<noteq> is_word_opt b)"

definition nth_opt :: "'a list \<Rightarrow> nat \<Rightarrow> 'a option" where
  "nth_opt xs n = (if n < length xs then Some (xs ! n) else None)"

text \<open>One alternative of the greedy \<open>\d{4,5}\b\<close>: exactly \<open>n\<close> digits, then a boundary.\<close>

definition digits_then_boundary :: "nat \<Rightarrow> string \<Rightarrow> bool" where
  "digits_then_boundary n rest =
     (n \<le> length rest \<and> list_all is_digit (take n rest) \<and>
      word_boundary (nth_opt rest (n - 1)) (nth_opt rest n))"

text \<open>
  A match attempt at one position, \<open>prev\<close> being the character before it: the number of
  digits matched. The quantifier is greedy, so five digits are tried before four.
\<close>

definition match_here :: "char option \<Rightarrow> string \<Rightarrow> nat option" where
  "match_here prev s =
     (case s of
        c1 # c2 # rest \<Rightarrow>
          if word_boundary prev (Some c1) \<and> c1 = CHR ''C'' \<and> c2 = CHR ''#'' then
            (if digits_then_boundary 5 rest then Some 5
             else if digits_then_boundary 4 rest then Some 4
             else None)
          else None
      | _ \<Rightarrow> None)"

text \<open>
  The global scan: after a match the search resumes behind it, otherwise one character
  further on.
\<close>

fun matchAll_from :: "char option \<Rightarrow> string \<Rightarrow> string list" where
  "matchAll_from prev [] = []"
| "matchAll_from prev (c # cs) =
     (case match_here prev (c # cs) of
        Some n \<Rightarrow> (c # take (Suc n) cs) # matchAll_from (nth_opt cs n) (drop (Suc n) cs)
      | None \<Rightarrow> matchAll_from (Some c) cs)"

definition matchAll :: "string \<Rightarrow> string list" where
  "matchAll txt = matchAll_from None txt"

section \<open>Message formatter\<close>

datatype text_object = PlainText string | Mrkdwn string

datatype block =
    Header text_object
  | Divider
  | Section text_object
  | SectionFields "text_object list"
  | Context "text_object list"

definition field_of :: "detail \<Rightarrow> text_object" where
  "field_of d =
     Mrkdwn (''*'' @ d_label d @ ''*'' @ [CHR 0x0A] @
             (if d_value d \<noteq> [] then d_value d else glyph_dash))"

text \<open>
  The chunking loop of lines 284-292 over the remaining details, with the two locals
  \<open>fieldChunks\<close> and \<open>current\<close>.
\<close>

fun chunk_loop ::
  "detail list \<Rightarrow> text_object list list \<Rightarrow> text_object list
     \<Rightarrow> text_object list list \<times> text_object list" where
  "chunk_loop [] chunks current = (chunks, current)"
| "chunk_loop (d # ds) chunks current =
     (let current' = current @ [field_of d]
      in if length current' = 10 then chunk_loop ds (chunks @ [current']) []
         else chunk_loop ds chunks current')"

definition fieldChunks :: "detail list \<Rightarrow> text_object list list" where
  "fieldChunks ds =
     (case chunk_loop ds [] [] of
        (chunks, current) \<Rightarrow> if current \<noteq> [] then chunks @ [current] else chunks)"

definition build_blocks :: "analysis_result \<Rightarrow> block list" where
  "build_blocks r =
     [Header (PlainText (headerText r)), Divider,
      Section (Mrkdwn (join [CHR 0x0A] (blurbLines r)))]
     @ (if details_out r \<noteq> [] then Divider # map SectionFields (fieldChunks (details_out r))
        else [])
     @ [Context [Mrkdwn (join ('' '' @ glyph_bullet @ '' '') (footer r))]]"

section \<open>Event dispatcher\<close>

record event =
  ev_subtype :: "string option"
  ev_text :: "string option"
  ev_bot_id :: "string option"
  ev_channel :: string
  ev_ts :: string

text \<open>The argument of one \<open>client.chat.postMessage\<close> call.\<close>

record message =
  msg_channel :: string
  msg_thread_ts :: string
  msg_text :: string
  msg_blocks :: "block list option"

definition truthy :: "string option \<Rightarrow> bool" where
  "truthy s = (case s of None \<Rightarrow> False | Some x \<Rightarrow> x \<noteq> [])"

definition not_found_message :: "event \<Rightarrow> string \<Rightarrow> message" where
  "not_found_message ev orderName =
     \<lparr> msg_channel = ev_channel ev, msg_thread_ts = ev_ts ev,
       msg_text = ''Couldn'' @ glyph_apostrophe @ ''t find an order named *'' @ orderName @ ''*.'',
       msg_blocks = None \<rparr>"

definition summary_message :: "config \<Rightarrow> timestamp \<Rightarrow> event \<Rightarrow> order \<Rightarrow> message" where
  "summary_message cfg now ev ord =
     \<lparr> msg_channel = ev_channel ev, msg_thread_ts = ev_ts ev,
       msg_text = (case name ord of None \<Rightarrow> ''undefined'' | Some n \<Rightarrow> n) @ '' '' @ glyph_dash
                  @ '' summary'',
       msg_blocks = Some (build_blocks (analyzeOrder cfg now ord)) \<rparr>"

definition apology_message :: "event \<Rightarrow> message" where
  "apology_message ev =
     \<lparr> msg_channel = ev_channel ev, msg_thread_ts = ev_ts ev,
       msg_text = ''Sorry, I hit an error looking that up.'',
       msg_blocks = None \<rparr>"

text \<open>
  What the handler's awaited calls meet, call by call. \<open>fetch k orderName\<close> is the
  outcome of the transport at the \<open>k\<close>-th call of \<open>getOrderByName\<close>,
  \<open>postMessage k msg\<close> tells whether the \<open>k\<close>-th call of
  \<open>client.chat.postMessage\<close> resolves (it rejects otherwise), and \<open>clock k\<close> is the
  reading of \<open>new Date()\<close> while the \<open>k\<close>-th identifier is analysed. Calls are counted
  from 0 within one run of the handler.
\<close>

record world =
  fetch :: "nat \<Rightarrow> string \<Rightarrow> transport"
  postMessage :: "nat \<Rightarrow> message \<Rightarrow> bool"
  clock :: "nat \<Rightarrow> timestamp"

text \<open>
  The \<open>for\<close> loop of lines 249-308 inside the \<open>try\<close>, from its \<open>k\<close>-th round on: the
  messages posted, in order, and, when a round raises, the error together with the number
  of calls of \<open>postMessage\<close> made so far. Each round calls \<open>getOrderByName\<close> once and
  then \<open>postMessage\<close> once, and either call may raise, which leaves the loop; so in
  round \<open>k\<close> both calls are the \<open>k\<close>-th of their kind.
\<close>

fun order_loop ::
  "config \<Rightarrow> world \<Rightarrow> event \<Rightarrow> nat \<Rightarrow> string list
     \<Rightarrow> message list \<times> (error \<times> nat) option" where
  "order_loop cfg w ev k [] = ([], None)"
| "order_loop cfg w ev k (orderName # rest) =
     (case getOrderByName (fetch w k orderName) of
        Inl err \<Rightarrow> ([], Some (err, k))
      | Inr found \<Rightarrow>
          (let msg = (case found of
                        None \<Rightarrow> not_found_message ev orderName
                      | Some ord \<Rightarrow> summary_message cfg (clock w k) ev ord)
           in if postMessage w k msg
              then (case order_loop cfg w ev (Suc k) rest of
                      (msgs, err) \<Rightarrow> (msg # msgs, err))
              else ([], Some (PostRejected, Suc k))))"

record handled =
  posted :: "message list"
  logged :: "error list"

text \<open>
  The handler of \<open>app.event('message')\<close>, lines 241-319: the messages that were
  posted and the errors written to the console. In the \<open>catch\<close> the apology is one more
  call of \<open>postMessage\<close>, whose rejection the inner \<open>try\<close> swallows.
\<close>

definition on_message :: "config \<Rightarrow> world \<Rightarrow> event \<Rightarrow> handled" where
  "on_message cfg w ev =
     (if truthy (ev_subtype ev) \<or> \<not> truthy (ev_text ev) \<or> truthy (ev_bot_id ev)
        then \<lparr>posted = [], logged = []\<rparr>
      else if truthy (LOCK_CHANNEL cfg) \<and> Some (ev_channel ev) \<noteq> LOCK_CHANNEL cfg
        then \<lparr>posted = [], logged = []\<rparr>
      else
        (let matches = matchAll (the (ev_text ev)) in
           if matches = [] then \<lparr>posted = [], logged = []\<rparr>
           else
             (case order_loop cfg w ev 0 matches of
                (msgs, None) \<Rightarrow> \<lparr>posted = msgs, logged = []\<rparr>
              | (msgs, Some (err, k)) \<Rightarrow>
                  \<lparr>posted = msgs @ (if postMessage w k (apology_message ev)
                                     then [apology_message ev] else []),
                    logged = [err]\<rparr>)))"

section \<open>Notions the properties are stated with\<close>

text \<open>
  An attribute is blank when its metafield is missing, carries no value, or carries only
  white space.
\<close>

definition blank_attribute :: "metafield option \<Rightarrow> bool" where
  "blank_attribute mf =
     (case mf of None \<Rightarrow> True
      | Some m \<Rightarrow> (case mf_value m of None \<Rightarrow> True | Some s \<Rightarrow> trim s = []))"

text \<open>
  The dedup key under which \<open>analyzeOrder\<close> files each label, read off its calls of
  \<open>addDetail\<close>: two labels share the key \<open>arrangedWith\<close>.
\<close>

definition key_of_label :: "string \<Rightarrow> string" where
  "key_of_label l =
     (if l = ''Invoiced With'' then ''invoice''
      else if l = ''Follow-Up Notes'' then ''followUpNotes''
      else if l = ''Weeks Since Order'' then ''weeks''
      else if l = ''Arranged With'' \<or> l = ''Arranged/Reserved With'' then ''arrangedWith''
      else if l = ''Return Notes'' then ''returnNotes''
      else l)"

definition detail_key :: "detail \<Rightarrow> string" where
  "detail_key d = key_of_label (d_label d)"

text \<open>The attribute whose value \<open>analyzeOrder\<close> shows under each label.\<close>

definition value_of_label :: "attributes \<Rightarrow> string \<Rightarrow> string" where
  "value_of_label mf l =
     (if l = ''Invoiced With'' then mf_invoice mf
      else if l = ''Follow-Up Notes'' then mf_followUpNotes mf
      else if l = ''Weeks Since Order'' then mf_weeks mf
      else if l = ''Arranged With'' \<or> l = ''Arranged/Reserved With'' then mf_arrangedWith mf
      else if l = ''Return Notes'' then mf_returnNotes mf
      else [])"

text \<open>The line rule 1 contributes, and the conditions under which rules 2 to 8 fire.\<close>

definition fulfillment_line :: "timestamp \<Rightarrow> order \<Rightarrow> string" where
  "fulfillment_line now ord =
     (if isFulfilled_of ord then line_fulfilled (weeksSince now (mostRecentFulfillmentAt ord))
      else line_not_fulfilled (mf_weeks (normalize_attributes ord)))"

definition other_rule_fires :: "attributes \<Rightarrow> bool" where
  "other_rule_fires mf =
     (isEq (mf_arrangeStatus mf) ''NEED TO ARRANGE''
      \<or> (isEq (mf_arrangeStatus mf) ''ARRANGED'' \<and> \<not> isYes (mf_incoming mf) ''INCOMING'')
      \<or> isYes (mf_incoming mf) ''INCOMING''
      \<or> isEq (mf_readyToContact mf) ''READY TO CONTACT''
      \<or> isEq (mf_readyToContact mf) ''CONTACT LATER''
      \<or> isEq (mf_needsFollowUp mf) ''NEEDS FOLLOW-UP''
      \<or> isEq (mf_reserveIncoming mf) ''RESERVED INCOMING INVENTORY''
      \<or> isEq (mf_owesReturn mf) ''OWES RETURN'')"

text \<open>The lines of rules 2 to 8, each under the condition of its rule, in rule order.\<close>

definition rule_lines :: "attributes \<Rightarrow> string list" where
  "rule_lines mf =
     (if isEq (mf_arrangeStatus mf) ''NEED TO ARRANGE'' then [line_need_to_arrange] else []) @
     (if isEq (mf_arrangeStatus mf) ''ARRANGED'' \<and> \<not> isYes (mf_incoming mf) ''INCOMING''
      then [line_arranged] else []) @
     (if isYes (mf_incoming mf) ''INCOMING''
      then [if isEq (mf_arrangeStatus mf) ''ARRANGED'' then line_partially_incoming
            else line_incoming]
      else []) @
     (if isEq (mf_readyToContact mf) ''READY TO CONTACT'' then [line_ready_to_contact]
      else if isEq (mf_readyToContact mf) ''CONTACT LATER'' then [line_contact_later]
      else []) @
     (if isEq (mf_needsFollowUp mf) ''NEEDS FOLLOW-UP'' then [line_needs_follow_up] else []) @
     (if isEq (mf_reserveIncoming mf) ''RESERVED INCOMING INVENTORY'' then [line_reserved]
      else []) @
     (if isEq (mf_owesReturn mf) ''OWES RETURN'' then [line_owes_return] else [])"

text \<open>The lines with a fixed text: those of rules 2 to 8 and the fallback line.\<close>

definition fixed_lines :: "string list" where
  "fixed_lines =
     [line_need_to_arrange, line_arranged, line_partially_incoming, line_incoming,
      line_ready_to_contact, line_contact_later, line_needs_follow_up, line_reserved,
      line_owes_return, line_no_exceptions]"

text \<open>
  What holds of the details between any two rules: every entry shows the non-empty value
  of the attribute behind its label, no two entries have the same key, and the keys in
  \<open>detailsAdded\<close> are those of the entries.
\<close>

definition details_wf :: "attributes \<Rightarrow> analysis \<Rightarrow> bool" where
  "details_wf mf s =
     (list_all (\<lambda>d. d_value d \<noteq> [] \<and> d_value d = value_of_label mf (d_label d)) (details s)
      \<and> distinct (map detail_key (details s))
      \<and> detailsAdded s = set (map detail_key (details s)))"

text \<open>Rounding to the nearest integer, a tie going away from zero.\<close>

definition round_half_away_from_zero :: "rat \<Rightarrow> int" where
  "round_half_away_from_zero x = (if 0 \<le> x then \<lfloor>x + 1 / 2\<rfloor> else - \<lfloor>- x + 1 / 2\<rfloor>)"

definition elapsed_weeks :: "timestamp \<Rightarrow> timestamp \<Rightarrow> rat" where
  "elapsed_weeks now dt = of_int (now - dt) / (7 * 24 * 3600 * 1000)"

definition weeks_half_away_from_zero :: "timestamp \<Rightarrow> timestamp \<Rightarrow> rat" where
  "weeks_half_away_from_zero now dt =
     of_int (round_half_away_from_zero (elapsed_weeks now dt * 10)) / 10"

text \<open>
  What an outcome of the transport carries: the decoded object, if the call resolved to a
  response whose body is a JSON object, with the orders it lists and its top-level and
  nested error entries. A status that is not a success, and an outcome that gives no JSON
  value to read a property of: a rejected call, a body that is not JSON, or the JSON
  value \<open>null\<close>.
\<close>

definition body_object :: "transport \<Rightarrow> gql_body option" where
  "body_object t =
     (case t of
        Rejected \<Rightarrow> None
      | Responded r \<Rightarrow> (case body r of JsonObject b \<Rightarrow> Some b | _ \<Rightarrow> None))"

definition matching_orders :: "transport \<Rightarrow> order list" where
  "matching_orders t =
     (case body_object t of None \<Rightarrow> []
      | Some b \<Rightarrow> (case data b of None \<Rightarrow> []
        | Some d \<Rightarrow> (case orders d of None \<Rightarrow> []
          | Some oc \<Rightarrow> (case edges oc of None \<Rightarrow> [] | Some es \<Rightarrow> map node es))))"

definition error_entries :: "transport \<Rightarrow> gql_error list" where
  "error_entries t =
     (case body_object t of None \<Rightarrow> []
      | Some b \<Rightarrow>
          (case errors b of None \<Rightarrow> [] | Some es \<Rightarrow> es) @
          (case data b of None \<Rightarrow> []
           | Some d \<Rightarrow> (case data_errors d of None \<Rightarrow> [] | Some es \<Rightarrow> es)))"

definition non_success_status :: "transport \<Rightarrow> bool" where
  "non_success_status t = (case t of Rejected \<Rightarrow> False | Responded r \<Rightarrow> \<not> ok r)"

definition unreadable :: "transport \<Rightarrow> bool" where
  "unreadable t =
     (case t of Rejected \<Rightarrow> True | Responded r \<Rightarrow> body r = NotJson \<or> body r = JsonNull)"

text \<open>
  A token at the head of a text, whatever surrounds it: the letter, the marker, then four
  or five digits, as many as are there.
\<close>

definition token_here :: "string \<Rightarrow> nat option" where
  "token_here s =
     (case s of
        c1 # c2 # rest \<Rightarrow>
          if c1 = CHR ''C'' \<and> c2 = CHR ''#'' \<and> 4 \<le> length (takeWhile is_digit rest)
          then Some (min 5 (length (takeWhile is_digit rest)))
          else None
      | _ \<Rightarrow> None)"

fun context_free_tokens :: "string \<Rightarrow> string list" where
  "context_free_tokens [] = []"
| "context_free_tokens (c # cs) =
     (case token_here (c # cs) of
        Some n \<Rightarrow> (c # take (Suc n) cs) # context_free_tokens (drop (Suc n) cs)
      | None \<Rightarrow> context_free_tokens cs)"

text \<open>
  A token that stands as a word of its own: the character before it is not a word
  character, its run of digits is exactly four or five long, and the character after the
  run is not a word character. \<open>standalone_tokens\<close> lists the token at every position
  of the text that holds one.
\<close>

definition standalone_token :: "char option \<Rightarrow> string \<Rightarrow> nat option" where
  "standalone_token prev s =
     (case s of
        c1 # c2 # rest \<Rightarrow>
          (let n = length (takeWhile is_digit rest) in
             if c1 = CHR ''C'' \<and> c2 = CHR ''#'' \<and> (n = 4 \<or> n = 5)
                \<and> \<not> is_word_opt prev \<and> \<not> is_word_opt (nth_opt rest n)
             then Some n else None)
      | _ \<Rightarrow> None)"

fun standalone_tokens :: "char option \<Rightarrow> string \<Rightarrow> string list" where
  "standalone_tokens prev [] = []"
| "standalone_tokens prev (c # cs) =
     (case standalone_token prev (c # cs) of
        Some n \<Rightarrow> [c # take (Suc n) cs]
      | None \<Rightarrow> [])
     @ standalone_tokens (Some c) cs"

text \<open>The shape of an identifier: the letter, the marker, four or five digits.\<close>

definition is_identifier :: "string \<Rightarrow> bool" where
  "is_identifier tok =
     (case tok of
        c1 # c2 # ds \<Rightarrow>
          c1 = CHR ''C'' \<and> c2 = CHR ''#'' \<and> (length ds = 4 \<or> length ds = 5) \<and> list_all is_digit ds
      | _ \<Rightarrow> False)"

text \<open>
  Round \<open>k\<close> of the loop on one identifier: the reply it posts when the lookup does
  not raise, whether the lookup raises, whether the round raises (the lookup raises or
  the post of the reply is rejected), and the number of calls of \<open>postMessage\<close> made
  when the round has raised.
\<close>

definition reply_at :: "config \<Rightarrow> world \<Rightarrow> event \<Rightarrow> nat \<Rightarrow> string \<Rightarrow> message" where
  "reply_at cfg w ev k orderName =
     (case getOrderByName (fetch w k orderName) of
        Inr (Some ord) \<Rightarrow> summary_message cfg (clock w k) ev ord
      | _ \<Rightarrow> not_found_message ev orderName)"

definition lookup_raises :: "world \<Rightarrow> nat \<Rightarrow> string \<Rightarrow> bool" where
  "lookup_raises w k orderName = isl (getOrderByName (fetch w k orderName))"

definition round_raises :: "config \<Rightarrow> world \<Rightarrow> event \<Rightarrow> nat \<Rightarrow> string \<Rightarrow> bool" where
  "round_raises cfg w ev k orderName =
     (lookup_raises w k orderName \<or> \<not> postMessage w k (reply_at cfg w ev k orderName))"

definition posts_made :: "world \<Rightarrow> nat \<Rightarrow> string \<Rightarrow> nat" where
  "posts_made w k orderName = (if lookup_raises w k orderName then k else Suc k)"

text \<open>
  The requests for a detail that \<open>analyzeOrder\<close> makes, as (key, label, value) in the
  order of its calls of \<open>addDetail\<close>, each under the condition of its rule. The first
  request for a key is the first one in this order that carries a value.
\<close>

type_synonym request = "string \<times> string \<times> string"

definition detail_requests :: "bool \<Rightarrow> attributes \<Rightarrow> request list" where
  "detail_requests isFulfilled mf =
     (if isFulfilled then [(''invoice'', ''Invoiced With'', mf_invoice mf)] else []) @
     (if isEq (mf_arrangeStatus mf) ''NEED TO ARRANGE''
      then [(''followUpNotes'', ''Follow-Up Notes'', mf_followUpNotes mf)] @
           (if \<not> isFulfilled then [(''weeks'', ''Weeks Since Order'', mf_weeks mf)] else [])
      else []) @
     (if isEq (mf_arrangeStatus mf) ''ARRANGED'' \<and> \<not> isYes (mf_incoming mf) ''INCOMING''
      then [(''arrangedWith'', ''Arranged With'', mf_arrangedWith mf)] @
           (if \<not> isFulfilled then [(''weeks'', ''Weeks Since Order'', mf_weeks mf)] else [])
      else []) @
     (if isYes (mf_incoming mf) ''INCOMING''
      then (if isEq (mf_arrangeStatus mf) ''ARRANGED''
            then [(''followUpNotes'', ''Follow-Up Notes'', mf_followUpNotes mf)] else []) @
           [(''invoice'', ''Invoiced With'', mf_invoice mf)] @
           (if \<not> isFulfilled then [(''weeks'', ''Weeks Since Order'', mf_weeks mf)] else [])
      else []) @
     (if isEq (mf_readyToContact mf) ''READY TO CONTACT''
      then [(''invoice'', ''Invoiced With'', mf_invoice mf)]
      else if isEq (mf_readyToContact mf) ''CONTACT LATER''
      then [(''weeks'', ''Weeks Since Order'', mf_weeks mf),
            (''invoice'', ''Invoiced With'', mf_invoice mf)]
      else []) @
     (if isEq (mf_needsFollowUp mf) ''NEEDS FOLLOW-UP''
      then [(''followUpNotes'', ''Follow-Up Notes'', mf_followUpNotes mf)] else []) @
     (if isEq (mf_reserveIncoming mf) ''RESERVED INCOMING INVENTORY''
      then [(''arrangedWith'', ''Arranged/Reserved With'', mf_arrangedWith mf)] else []) @
     (if isEq (mf_owesReturn mf) ''OWES RETURN''
      then [(''returnNotes'', ''Return Notes'', mf_returnNotes mf)] else [])"

definition first_request :: "string \<Rightarrow> request list \<Rightarrow> request option" where
  "first_request key rs = find (\<lambda>(k, l, v). k = key \<and> v \<noteq> []) rs"

text \<open>
  Two tools of the proofs: a list of requests passed to \<open>addDetail\<close> one after the
  other, and a state with its narrative left out.
\<close>

definition run_requests :: "request list \<Rightarrow> analysis \<Rightarrow> analysis" where
  "run_requests rs s = foldl (\<lambda>s (k, l, v). addDetail k l v s) s rs"

definition no_blurb :: "analysis \<Rightarrow> analysis" where
  "no_blurb s = s\<lparr>blurb := []\<rparr>"

definition keys_wf :: "analysis \<Rightarrow> bool" where
  "keys_wf s =
     (distinct (map detail_key (details s)) \<and>
      detailsAdded s = set (map detail_key (details s)))"

definition well_keyed :: "request list \<Rightarrow> bool" where
  "well_keyed rs = list_all (\<lambda>(k, l, v). key_of_label l = k) rs"

section \<open>Sample inputs\<close>

definition blank_order :: order where
  "blank_order =
     \<lparr> order_id = None, name = None, displayFulfillmentStatus = None, fulfillments = [],
       customer = None, weeksSinceOrder = None, arrangeStatus = None, arrangedWith = None,
       incoming = None, reserveIncoming = None, readyToContact = None, needsFollowUp = None,
       followUpNotes = None, owesReturn = None, returnNotes = None, invoicedWith = None \<rparr>"

definition sample_config :: config where
  "sample_config = \<lparr> SHOPIFY_DOMAIN = ''shop.example'', LOCK_CHANNEL = None \<rparr>"

definition sample_event :: event where
  "sample_event =
     \<lparr> ev_subtype = None, ev_text = Some ''C#1001 then C#2002 and C#3003'',
       ev_bot_id = None, ev_channel = ''C1'', ev_ts = ''1.0'' \<rparr>"

definition found_response :: "order \<Rightarrow> transport" where
  "found_response ord =
     Responded \<lparr> ok = True, status = 200,
       body = JsonObject \<lparr> errors = None,
                data = Some \<lparr> data_errors = None,
                              orders = Some \<lparr> edges = Some [\<lparr> node = ord \<rparr>] \<rparr> \<rparr> \<rparr> \<rparr>"

definition no_match_response :: transport where
  "no_match_response =
     Responded \<lparr> ok = True, status = 200,
       body = JsonObject \<lparr> errors = None,
                data = Some \<lparr> data_errors = None, orders = Some \<lparr> edges = Some [] \<rparr> \<rparr> \<rparr> \<rparr>"

definition failed_response :: transport where
  "failed_response = Responded \<lparr> ok = False, status = 500, body = NotJson \<rparr>"

definition null_response :: transport where
  "null_response = Responded \<lparr> ok = True, status = 200, body = JsonNull \<rparr>"

definition sample_fetch :: "nat \<Rightarrow> string \<Rightarrow> transport" where
  "sample_fetch k orderName =
     (if orderName = ''C#1001'' then no_match_response
      else if orderName = ''C#2002'' then failed_response
      else found_response blank_order)"

text \<open>A world whose chat service accepts every post, and one where it rejects every post.\<close>

definition sample_world :: world where
  "sample_world = \<lparr> fetch = sample_fetch, postMessage = (\<lambda>k msg. True), clock = (\<lambda>k. 0) \<rparr>"

definition muted_world :: world where
  "muted_world = \<lparr> fetch = sample_fetch, postMessage = (\<lambda>k msg. False), clock = (\<lambda>k. 0) \<rparr>"

definition mf_of :: "string \<Rightarrow> metafield option" where
  "mf_of s = Some \<lparr> mf_value = Some s \<rparr>"

definition reserved_order :: order where
  "reserved_order =
     blank_order \<lparr> arrangeStatus := mf_of ''Arranged'', arrangedWith := mf_of '' Acme Co '',
                   reserveIncoming := mf_of ''Reserved Incoming Inventory'' \<rparr>"

definition follow_up_order :: order where
  "follow_up_order =
     blank_order \<lparr> weeksSinceOrder := mf_of ''3.5'', arrangeStatus := mf_of ''Need to arrange'',
                   needsFollowUp := mf_of ''needs follow-up'',
                   followUpNotes := mf_of ''call back'' \<rparr>"

section \<open>The narrative\<close>

lemma blurb_push_blurb: "blurb (push_blurb l s) = blurb s @ [l]"
  by (simp add: push_blurb_def)

lemma blurb_addDetail: "blurb (addDetail k l v s) = blurb s"
  by (simp add: addDetail_def)

lemma blurb_rule_fulfillment:
  "blurb (rule_fulfillment now ord mf f s) =
     blurb s @ [if f then line_fulfilled (weeksSince now (mostRecentFulfillmentAt ord))
                else line_not_fulfilled (mf_weeks mf)]"
  by (simp add: rule_fulfillment_def Let_def blurb_push_blurb blurb_addDetail)

lemma blurb_rule_need_to_arrange:
  "blurb (rule_need_to_arrange mf f s) =
     blurb s @ (if isEq (mf_arrangeStatus mf) ''NEED TO ARRANGE'' then [line_need_to_arrange]
                else [])"
  by (simp add: rule_need_to_arrange_def Let_def blurb_push_blurb blurb_addDetail)

lemma blurb_rule_arranged:
  "blurb (rule_arranged mf f s) =
     blurb s @ (if isEq (mf_arrangeStatus mf) ''ARRANGED'' \<and> \<not> isYes (mf_incoming mf) ''INCOMING''
                then [line_arranged] else [])"
  by (simp add: rule_arranged_def Let_def blurb_push_blurb blurb_addDetail)

lemma blurb_rule_incoming:
  "blurb (rule_incoming mf f s) =
     blurb s @ (if isYes (mf_incoming mf) ''INCOMING''
                then [if isEq (mf_arrangeStatus mf) ''ARRANGED'' then line_partially_incoming
                      else line_incoming]
                else [])"
  by (simp add: rule_incoming_def Let_def blurb_push_blurb blurb_addDetail)

lemma blurb_rule_contact:
  "blurb (rule_contact mf s) =
     blurb s @ (if isEq (mf_readyToContact mf) ''READY TO CONTACT'' then [line_ready_to_contact]
                else if isEq (mf_readyToContact mf) ''CONTACT LATER'' then [line_contact_later]
                else [])"
  by (simp add: rule_contact_def blurb_push_blurb blurb_addDetail)

lemma blurb_rule_needs_follow_up:
  "blurb (rule_needs_follow_up mf s) =
     blurb s @ (if isEq (mf_needsFollowUp mf) ''NEEDS FOLLOW-UP'' then [line_needs_follow_up]
                else [])"
  by (simp add: rule_needs_follow_up_def blurb_push_blurb blurb_addDetail)

lemma blurb_rule_reserved:
  "blurb (rule_reserved mf s) =
     blurb s @ (if isEq (mf_reserveIncoming mf) ''RESERVED INCOMING INVENTORY''
                then [line_reserved] else [])"
  by (simp add: rule_reserved_def blurb_push_blurb blurb_addDetail)

lemma blurb_rule_owes_return:
  "blurb (rule_owes_return mf s) =
     blurb s @ (if isEq (mf_owesReturn mf) ''OWES RETURN'' then [line_owes_return] else [])"
  by (simp add: rule_owes_return_def blurb_push_blurb blurb_addDetail)

lemma rule_no_exceptions_nonempty: "blurb s \<noteq> [] \<Longrightarrow> rule_no_exceptions s = s"
  by (simp add: rule_no_exceptions_def)

lemmas blurb_rules =
  blurb_rule_fulfillment blurb_rule_need_to_arrange blurb_rule_arranged blurb_rule_incoming
  blurb_rule_contact blurb_rule_needs_follow_up blurb_rule_reserved blurb_rule_owes_return

text \<open>The state just before the fallback of lines 228-230.\<close>

lemma analyzeOrder_locals_unfold:
  "analyzeOrder_locals now ord =
     rule_no_exceptions
       (rule_owes_return (normalize_attributes ord)
         (rule_reserved (normalize_attributes ord)
           (rule_needs_follow_up (normalize_attributes ord)
             (rule_contact (normalize_attributes ord)
               (rule_incoming (normalize_attributes ord) (isFulfilled_of ord)
                 (rule_arranged (normalize_attributes ord) (isFulfilled_of ord)
                   (rule_need_to_arrange (normalize_attributes ord) (isFulfilled_of ord)
                     (rule_fulfillment now ord (normalize_attributes ord) (isFulfilled_of ord)
                       \<lparr>blurb = [], details = [], detailsAdded = {}\<rparr>))))))))"
  by (simp add: analyzeOrder_locals_def Let_def)

lemma blurb_analyzeOrder_locals:
  "blurb (analyzeOrder_locals now ord) =
     fulfillment_line now ord # rule_lines (normalize_attributes ord)"
proof -
  let ?mf = "normalize_attributes ord" and ?f = "isFulfilled_of ord"
  let ?s8 = "rule_owes_return ?mf (rule_reserved ?mf (rule_needs_follow_up ?mf
       (rule_contact ?mf (rule_incoming ?mf ?f (rule_arranged ?mf ?f
         (rule_need_to_arrange ?mf ?f
           (rule_fulfillment now ord ?mf ?f
              \<lparr>blurb = [], details = [], detailsAdded = {}\<rparr>)))))))"
  have b8: "blurb ?s8 = fulfillment_line now ord # rule_lines ?mf"
    unfolding blurb_rules rule_lines_def fulfillment_line_def by simp
  then have "blurb ?s8 \<noteq> []" by simp
  then have "rule_no_exceptions ?s8 = ?s8" by (rule rule_no_exceptions_nonempty)
  then show ?thesis
    using b8 by (simp add: analyzeOrder_locals_unfold)
qed

lemma blurbLines_analyzeOrder:
  "blurbLines (analyzeOrder cfg now ord) =
     fulfillment_line now ord # rule_lines (normalize_attributes ord)"
  by (simp add: analyzeOrder_def Let_def blurb_analyzeOrder_locals)

lemma details_out_analyzeOrder:
  "details_out (analyzeOrder cfg now ord) = details (analyzeOrder_locals now ord)"
  by (simp add: analyzeOrder_def Let_def)

text \<open>
  C3. The narrative \<open>analyzeOrder\<close> returns is never empty: whatever the order, its first
  line is the line of rule 1, the fulfilled line or the not-yet-fulfilled line.
\<close>

theorem narrative_nonempty:
  "1 \<le> length (blurbLines (analyzeOrder cfg now ord)) \<and>
   hd (blurbLines (analyzeOrder cfg now ord)) =
     (if isFulfilled_of ord then line_fulfilled (weeksSince now (mostRecentFulfillmentAt ord))
      else line_not_fulfilled (mf_weeks (normalize_attributes ord)))"
  by (simp add: blurbLines_analyzeOrder fulfillment_line_def)

section \<open>Chunking of the detail list\<close>

lemma chunk_loop_invariant:
  "length cur < 10 \<Longrightarrow> list_all (\<lambda>c. length c = 10) chunks \<Longrightarrow>
   chunk_loop ds chunks cur = (chunks', cur') \<Longrightarrow>
   concat chunks' @ cur' = concat chunks @ cur @ map field_of ds \<and>
   length cur' < 10 \<and> list_all (\<lambda>c. length c = 10) chunks'"
proof (induction ds arbitrary: chunks cur)
  case Nil
  then show ?case by simp
next
  case (Cons d ds)
  show ?case
  proof (cases "length cur = 9")
    case True
    with Cons.prems have "chunk_loop ds (chunks @ [cur @ [field_of d]]) [] = (chunks', cur')"
      by (simp add: Let_def)
    moreover have "list_all (\<lambda>c. length c = 10) (chunks @ [cur @ [field_of d]])"
      using Cons.prems True by simp
    ultimately show ?thesis
      using Cons.IH [of "[]" "chunks @ [cur @ [field_of d]]"] by simp
  next
    case False
    with Cons.prems have "chunk_loop ds chunks (cur @ [field_of d]) = (chunks', cur')"
      by (simp add: Let_def)
    moreover have "length (cur @ [field_of d]) < 10"
      using Cons.prems False by simp
    ultimately show ?thesis
      using Cons.IH [of "cur @ [field_of d]" chunks] Cons.prems by simp
  qed
qed

lemma length_concat_all_ten:
  "list_all (\<lambda>c. length c = 10) xss \<Longrightarrow> length (concat xss) = 10 * length xss"
  by (induction xss) simp_all

lemma map_length_all_ten:
  "list_all (\<lambda>c. length c = 10) xss \<Longrightarrow> map length xss = replicate (length xss) 10"
  by (induction xss) simp_all

lemma ceil_div_ten:
  fixes q r :: nat
  assumes "r < 10"
  shows "(10 * q + r + 9) div 10 = q + (if r = 0 then 0 else 1)"
proof (cases "r = 0")
  case True
  then show ?thesis by simp
next
  case False
  then have "10 * q + r + 9 = 10 * (q + 1) + (r - 1)" by simp
  moreover have "(10 * (q + 1) + (r - 1)) div 10 = q + 1"
    using assms by simp
  ultimately show ?thesis using False by simp
qed

lemma chunk_loop_sizes:
  assumes "chunk_loop ds [] [] = (chunks, cur)"
  shows "concat chunks @ cur = map field_of ds"
    and "length ds = 10 * length chunks + length cur"
    and "length cur < 10"
    and "list_all (\<lambda>c. length c = 10) chunks"
proof -
  from chunk_loop_invariant [of "[]" "[]" ds chunks cur] assms
  have c: "concat chunks @ cur = map field_of ds" and l: "length cur < 10"
    and a: "list_all (\<lambda>c. length c = 10) chunks"
    by simp_all
  from c have "length (concat chunks @ cur) = length (map field_of ds)"
    by (rule arg_cong)
  with a show "length ds = 10 * length chunks + length cur"
    by (simp add: length_concat_all_ten)
  show "concat chunks @ cur = map field_of ds" by (rule c)
  show "list_all (\<lambda>c. length c = 10) chunks" by (rule a)
  show "length cur < 10" by (rule l)
qed

lemma fieldChunks_concat: "concat (fieldChunks ds) = map field_of ds"
proof -
  obtain chunks cur where c: "chunk_loop ds [] [] = (chunks, cur)" by (meson surj_pair)
  from chunk_loop_sizes(1) [OF c] show ?thesis
    by (auto simp: fieldChunks_def c)
qed

lemma fieldChunks_length: "length (fieldChunks ds) = (length ds + 9) div 10"
proof -
  obtain chunks cur where c: "chunk_loop ds [] [] = (chunks, cur)" by (meson surj_pair)
  note s = chunk_loop_sizes [OF c]
  have "length (fieldChunks ds) = length chunks + (if length cur = 0 then 0 else 1)"
    by (simp add: fieldChunks_def c)
  also have "\<dots> = (10 * length chunks + length cur + 9) div 10"
    using ceil_div_ten [OF s(3), of "length chunks"] by simp
  finally show ?thesis unfolding s(2) .
qed

lemma fieldChunks_bounds:
  "list_all (\<lambda>c. 1 \<le> length c \<and> length c \<le> 10) (fieldChunks ds)"
proof -
  obtain chunks cur where c: "chunk_loop ds [] [] = (chunks, cur)" by (meson surj_pair)
  note s = chunk_loop_sizes [OF c]
  have "list_all (\<lambda>c. 1 \<le> length c \<and> length c \<le> 10) chunks"
    using s(4) by (simp add: list_all_iff)
  moreover have "cur \<noteq> [] \<Longrightarrow> 1 \<le> length cur \<and> length cur \<le> 10"
    using s(3) by (cases cur) simp_all
  ultimately show ?thesis
    by (simp add: fieldChunks_def c)
qed

lemma fieldChunks_full:
  "list_all (\<lambda>c. length c = 10) (butlast (fieldChunks ds))"
proof -
  obtain chunks cur where c: "chunk_loop ds [] [] = (chunks, cur)" by (meson surj_pair)
  note s = chunk_loop_sizes [OF c]
  have "list_all (\<lambda>c. length c = 10) (butlast chunks)"
    using s(4) by (auto simp: list_all_iff dest: in_set_butlastD)
  with s(4) show ?thesis
    by (simp add: fieldChunks_def c)
qed

lemma fieldChunks_23:
  assumes "length ds = 23"
  shows "map length (fieldChunks ds) = [10, 10, 3]"
proof -
  obtain chunks cur where c: "chunk_loop ds [] [] = (chunks, cur)" by (meson surj_pair)
  note s = chunk_loop_sizes [OF c]
  from s(2) s(3) assms have "length chunks = 2" and r: "length cur = 3" by arith+
  then have "map length chunks = [10, 10]"
    using map_length_all_ten [OF s(4)] by (simp add: numeral_2_eq_2)
  moreover from r have "cur \<noteq> []" by auto
  ultimately show ?thesis using r by (simp add: fieldChunks_def c)
qed

text \<open>
  C7. The formatter cuts a detail list of \<open>n\<close> entries, in order, into
  \<open>ceil (n / 10)\<close> blocks of at most 10 entries, every block but the last holding
  exactly 10; 23 entries give blocks of 10, 10 and 3.
\<close>

theorem fieldChunks_partition:
  "concat (fieldChunks ds) = map field_of ds \<and>
   length (fieldChunks ds) = (length ds + 9) div 10 \<and>
   list_all (\<lambda>c. 1 \<le> length c \<and> length c \<le> 10) (fieldChunks ds) \<and>
   list_all (\<lambda>c. length c = 10) (butlast (fieldChunks ds)) \<and>
   (length ds = 23 \<longrightarrow> map length (fieldChunks ds) = [10, 10, 3])"
  by (intro conjI impI fieldChunks_concat fieldChunks_length fieldChunks_bounds
      fieldChunks_full fieldChunks_23)

theorem fieldChunks_partition_witness:
  "map length (fieldChunks (replicate 23 \<lparr>d_label = ''Return Notes'', d_value = ''x''\<rparr>))
     = [10, 10, 3] \<and>
   length (fieldChunks (replicate 23 \<lparr>d_label = ''Return Notes'', d_value = ''x''\<rparr>)) = 3"
proof -
  let ?ds = "replicate 23 \<lparr>d_label = ''Return Notes'', d_value = ''x''\<rparr>"
  have n: "length ?ds = 23" by simp
  note t = fieldChunks_partition [of ?ds]
  have "length ?ds = 23 \<longrightarrow> map length (fieldChunks ?ds) = [10, 10, 3]"
    by (rule t [THEN conjunct2, THEN conjunct2, THEN conjunct2, THEN conjunct2])
  with n have m: "map length (fieldChunks ?ds) = [10, 10, 3]" by (rule rev_mp)
  have "length (fieldChunks ?ds) = length (map length (fieldChunks ?ds))" by simp
  also have "\<dots> = 3" unfolding m by simp
  finally show ?thesis using m by (intro conjI)
qed

section \<open>Elapsed weeks\<close>

lemma weeksSince_Some:
  "weeksSince now (Some dt) = Some (of_int (Math_round (elapsed_weeks now dt * 10)) / 10)"
proof -
  have "elapsed_weeks now dt = of_int (now - dt) / (1000 * 60 * 60 * 24 * 7)"
    by (simp add: elapsed_weeks_def)
  then show ?thesis
    by (simp only: weeksSince_def Let_def option.case)
qed

lemma Math_round_bounds:
  "x - 1 / 2 < of_int (Math_round x) \<and> of_int (Math_round x) \<le> x + 1 / 2"
proof -
  have "of_int \<lfloor>x + 1 / 2\<rfloor> \<le> x + 1 / 2" by (rule of_int_floor_le)
  moreover have "x + 1 / 2 < of_int \<lfloor>x + 1 / 2\<rfloor> + 1" by linarith
  ultimately show ?thesis by (simp add: Math_round_def)
qed

lemma Math_round_nonneg: "0 \<le> x \<Longrightarrow> Math_round x = round_half_away_from_zero x"
  by (simp add: Math_round_def round_half_away_from_zero_def)

lemma elapsed_weeks_nonneg: "dt \<le> now \<Longrightarrow> 0 \<le> elapsed_weeks now dt * 10"
  by (simp add: elapsed_weeks_def)

text \<open>
  C4, amended. For every event time and evaluation time, the elapsed weeks reported are
  the elapsed milliseconds divided by \<open>7 * 24 * 3600 * 1000\<close>, rounded to one decimal
  with a tie going up, towards plus infinity: a multiple \<open>k / 10\<close> of a tenth with
  \<open>10 w - 1/2 < k \<le> 10 w + 1/2\<close>. When the event is not later than the evaluation
  time this is rounding half away from zero. An event exactly 14 days before the
  evaluation time gives 2.
\<close>

theorem weeksSince_rounds_half_up:
  "(\<exists>k::int. weeksSince now (Some dt) = Some (of_int k / 10) \<and>
       elapsed_weeks now dt * 10 - 1 / 2 < of_int k \<and>
       of_int k \<le> elapsed_weeks now dt * 10 + 1 / 2) \<and>
   (dt \<le> now \<longrightarrow> weeksSince now (Some dt) = Some (weeks_half_away_from_zero now dt)) \<and>
   (now - dt = 14 * 24 * 3600 * 1000 \<longrightarrow> weeksSince now (Some dt) = Some 2)"
proof (intro conjI impI)
  show "\<exists>k::int. weeksSince now (Some dt) = Some (of_int k / 10) \<and>
       elapsed_weeks now dt * 10 - 1 / 2 < of_int k \<and>
       of_int k \<le> elapsed_weeks now dt * 10 + 1 / 2"
    using Math_round_bounds [of "elapsed_weeks now dt * 10"] weeksSince_Some [of now dt]
    by blast
next
  assume "dt \<le> now"
  then show "weeksSince now (Some dt) = Some (weeks_half_away_from_zero now dt)"
    by (simp add: weeksSince_Some weeks_half_away_from_zero_def Math_round_nonneg
        elapsed_weeks_nonneg)
next
  assume "now - dt = 14 * 24 * 3600 * 1000"
  then have "elapsed_weeks now dt * 10 = of_int 20"
    by (simp add: elapsed_weeks_def)
  moreover have "Math_round (of_int 20) = 20"
    unfolding Math_round_def by linarith
  ultimately show "weeksSince now (Some dt) = Some 2"
    by (simp add: weeksSince_Some)
qed

theorem weeksSince_rounds_half_up_witness:
  "weeksSince 1209600000 (Some 0) = Some 2 \<and> weeks_half_away_from_zero 1209600000 0 = 2"
proof -
  note t = weeksSince_rounds_half_up [of 1209600000 0]
  have a: "(0::int) \<le> 1209600000" and b: "(1209600000::int) - 0 = 14 * 24 * 3600 * 1000"
    by simp_all
  from t a have "weeksSince 1209600000 (Some 0) = Some (weeks_half_away_from_zero 1209600000 0)"
    by blast
  moreover from t b have "weeksSince 1209600000 (Some 0) = Some 2" by blast
  ultimately show ?thesis by simp
qed

text \<open>
  An event 8.4 hours after the evaluation time is -0.05 weeks away: \<open>Math.round\<close> takes
  the tie -0.5 up to 0, rounding half away from zero takes it to -1, that is -0.1 weeks.
\<close>

theorem weeksSince_half_away_counterexample:
  "weeksSince 0 (Some 30240000) = Some 0 \<and>
   weeks_half_away_from_zero 0 30240000 = - (1 / 10) \<and>
   weeksSince 0 (Some 30240000) \<noteq> Some (weeks_half_away_from_zero 0 30240000)"
  by (simp add: weeksSince_def weeks_half_away_from_zero_def elapsed_weeks_def Math_round_def
      round_half_away_from_zero_def Let_def)

section \<open>Outcomes of the fetch\<close>

lemma has_length_iff: "has_length xs \<longleftrightarrow> (case xs of None \<Rightarrow> [] | Some es \<Rightarrow> es) \<noteq> []"
  by (simp add: has_length_def split: option.splits)

lemma first_node_matching:
  "first_node b =
     (case matching_orders (Responded \<lparr>ok = True, status = n, body = JsonObject b\<rparr>) of
        [] \<Rightarrow> None | x # _ \<Rightarrow> Some x)"
  by (simp add: first_node_def matching_orders_def body_object_def
      split: option.splits list.splits)

lemma order_of_body_outcomes:
  fixes b n
  defines "t \<equiv> Responded \<lparr>ok = True, status = n, body = JsonObject b\<rparr>"
  shows "isl (order_of_body b) \<longleftrightarrow> error_entries t \<noteq> []"
    and "order_of_body b = Inr None \<longleftrightarrow> error_entries t = [] \<and> matching_orders t = []"
    and "error_entries t = [] \<Longrightarrow> matching_orders t \<noteq> [] \<Longrightarrow>
         order_of_body b = Inr (Some (hd (matching_orders t)))"
  unfolding t_def
  by (auto simp: order_of_body_def error_entries_def body_object_def has_length_iff
      first_node_matching [of b n] split: option.splits list.splits)

text \<open>
  C6, amended. \<open>getOrderByName\<close> raises exactly when the transport returns a status
  that is not a success, or the response body carries top-level or nested error entries,
  or the transport gives nothing to read them from: its call is rejected, the body is not
  JSON, or the body is the JSON value \<open>null\<close>. It returns absent exactly when none of
  these holds and the response lists no order; otherwise it returns the first order
  listed.
\<close>

theorem getOrderByName_outcomes:
  "(isl (getOrderByName t) \<longleftrightarrow>
      non_success_status t \<or> unreadable t \<or> error_entries t \<noteq> []) \<and>
   (getOrderByName t = Inr None \<longleftrightarrow>
      \<not> non_success_status t \<and> \<not> unreadable t \<and> error_entries t = [] \<and>
      matching_orders t = []) \<and>
   (\<not> non_success_status t \<and> \<not> unreadable t \<and> error_entries t = [] \<and>
    matching_orders t \<noteq> [] \<longrightarrow>
      getOrderByName t = Inr (Some (hd (matching_orders t))))"
proof (cases t)
  case Rejected
  then show ?thesis
    by (simp add: getOrderByName_def non_success_status_def unreadable_def)
next
  case (Responded r)
  show ?thesis
  proof (cases "ok r")
    case False
    with Responded show ?thesis
      by (simp add: getOrderByName_def non_success_status_def)
  next
    case True
    show ?thesis
    proof (cases "body r")
      case NotJson
      with Responded True show ?thesis
        by (simp add: getOrderByName_def non_success_status_def unreadable_def)
    next
      case JsonNull
      with Responded True show ?thesis
        by (simp add: getOrderByName_def non_success_status_def unreadable_def)
    next
      case JsonOther
      with Responded True show ?thesis
        by (simp add: getOrderByName_def non_success_status_def unreadable_def
            error_entries_def matching_orders_def body_object_def)
    next
      case (JsonObject b)
      with True have r: "r = \<lparr>ok = True, status = status r, body = JsonObject b\<rparr>"
        by simp
      have g: "getOrderByName t = order_of_body b"
        using Responded True JsonObject by (simp add: getOrderByName_def)
      have n: "\<not> non_success_status t" "\<not> unreadable t"
        using Responded True JsonObject by (simp_all add: non_success_status_def unreadable_def)
      have t: "t = Responded \<lparr>ok = True, status = status r, body = JsonObject b\<rparr>"
        using Responded r by simp
      show ?thesis
        unfolding g using n order_of_body_outcomes [where b = b and n = "status r"]
        unfolding t [symmetric] by auto
    qed
  qed
qed

theorem getOrderByName_outcomes_witness:
  "isl (getOrderByName failed_response) \<and>
   isl (getOrderByName Rejected) \<and>
   getOrderByName no_match_response = Inr None \<and>
   getOrderByName (found_response blank_order) = Inr (Some blank_order)"
proof -
  have "isl (getOrderByName failed_response)"
    using getOrderByName_outcomes [of failed_response]
    by (simp add: failed_response_def non_success_status_def)
  moreover have "isl (getOrderByName Rejected)"
    using getOrderByName_outcomes [of Rejected] by (simp add: unreadable_def)
  moreover have "getOrderByName no_match_response = Inr None"
    using getOrderByName_outcomes [of no_match_response]
    by (simp add: no_match_response_def error_entries_def matching_orders_def body_object_def
        non_success_status_def unreadable_def)
  moreover have "getOrderByName (found_response blank_order) = Inr (Some blank_order)"
    using getOrderByName_outcomes [of "found_response blank_order"]
    by (simp add: found_response_def error_entries_def matching_orders_def body_object_def
        non_success_status_def unreadable_def)
  ultimately show ?thesis by (intro conjI)
qed

text \<open>
  A rejected call of the transport, and a successful response whose body is \<open>null\<close>:
  \<open>getOrderByName\<close> raises, though no status that is not a success was returned and
  no body with error entries.
\<close>

theorem fetch_raises_counterexample:
  "isl (getOrderByName Rejected) \<and>
   \<not> non_success_status Rejected \<and> error_entries Rejected = [] \<and>
   isl (getOrderByName null_response) \<and>
   \<not> non_success_status null_response \<and> error_entries null_response = []"
  by (simp add: getOrderByName_def non_success_status_def error_entries_def body_object_def
      null_response_def)

section \<open>The narrative lines are distinct\<close>

lemmas glyph_defs =
  glyph_dash_def glyph_fulfilled_def glyph_pending_def glyph_need_to_arrange_def
  glyph_arranged_def glyph_incoming_def glyph_ready_def glyph_later_def glyph_apostrophe_def
  glyph_follow_up_def glyph_reserved_def glyph_return_def glyph_info_def

lemmas line_defs =
  line_need_to_arrange_def line_arranged_def line_partially_incoming_def line_incoming_def
  line_ready_to_contact_def line_contact_later_def line_needs_follow_up_def line_reserved_def
  line_owes_return_def line_no_exceptions_def

lemma distinct_fixed_lines: "distinct fixed_lines"
  by (simp add: fixed_lines_def line_defs glyph_defs)

lemma line_fulfilled_not_fixed: "line_fulfilled w \<notin> set fixed_lines"
  by (simp add: fixed_lines_def line_defs glyph_defs line_fulfilled_def)

lemma line_not_fulfilled_not_fixed: "line_not_fulfilled x \<notin> set fixed_lines"
  by (simp add: fixed_lines_def line_defs glyph_defs line_not_fulfilled_def)

lemma fulfillment_line_not_fixed: "fulfillment_line now ord \<notin> set fixed_lines"
  by (simp add: fulfillment_line_def line_fulfilled_not_fixed line_not_fulfilled_not_fixed)

section \<open>The detail list\<close>

lemma key_of_label_simps:
  "key_of_label ''Invoiced With'' = ''invoice''"
  "key_of_label ''Follow-Up Notes'' = ''followUpNotes''"
  "key_of_label ''Weeks Since Order'' = ''weeks''"
  "key_of_label ''Arranged With'' = ''arrangedWith''"
  "key_of_label ''Arranged/Reserved With'' = ''arrangedWith''"
  "key_of_label ''Return Notes'' = ''returnNotes''"
  by (simp_all add: key_of_label_def)

lemma value_of_label_simps:
  "value_of_label mf ''Invoiced With'' = mf_invoice mf"
  "value_of_label mf ''Follow-Up Notes'' = mf_followUpNotes mf"
  "value_of_label mf ''Weeks Since Order'' = mf_weeks mf"
  "value_of_label mf ''Arranged With'' = mf_arrangedWith mf"
  "value_of_label mf ''Arranged/Reserved With'' = mf_arrangedWith mf"
  "value_of_label mf ''Return Notes'' = mf_returnNotes mf"
  by (simp_all add: value_of_label_def)

lemma details_wf_init: "details_wf mf \<lparr>blurb = [], details = [], detailsAdded = {}\<rparr>"
  by (simp add: details_wf_def)

lemma details_wf_push_blurb: "details_wf mf s \<Longrightarrow> details_wf mf (push_blurb l s)"
  by (simp add: details_wf_def push_blurb_def)

lemma details_wf_addDetail:
  "details_wf mf s \<Longrightarrow> key_of_label l = k \<Longrightarrow> value_of_label mf l = v \<Longrightarrow>
   details_wf mf (addDetail k l v s)"
  by (auto simp: details_wf_def addDetail_def detail_key_def)

lemmas details_wf_intros =
  details_wf_push_blurb details_wf_addDetail key_of_label_simps value_of_label_simps

lemma details_wf_rule_fulfillment:
  "details_wf mf s \<Longrightarrow> details_wf mf (rule_fulfillment now ord mf f s)"
  by (simp add: rule_fulfillment_def Let_def details_wf_intros)

lemma details_wf_rule_need_to_arrange:
  "details_wf mf s \<Longrightarrow> details_wf mf (rule_need_to_arrange mf f s)"
  by (simp add: rule_need_to_arrange_def Let_def details_wf_intros)

lemma details_wf_rule_arranged:
  "details_wf mf s \<Longrightarrow> details_wf mf (rule_arranged mf f s)"
  by (simp add: rule_arranged_def Let_def details_wf_intros)

lemma details_wf_rule_incoming:
  "details_wf mf s \<Longrightarrow> details_wf mf (rule_incoming mf f s)"
  by (simp add: rule_incoming_def Let_def details_wf_intros)

lemma details_wf_rule_contact:
  "details_wf mf s \<Longrightarrow> details_wf mf (rule_contact mf s)"
  by (simp add: rule_contact_def details_wf_intros)

lemma details_wf_rule_needs_follow_up:
  "details_wf mf s \<Longrightarrow> details_wf mf (rule_needs_follow_up mf s)"
  by (simp add: rule_needs_follow_up_def details_wf_intros)

lemma details_wf_rule_reserved:
  "details_wf mf s \<Longrightarrow> details_wf mf (rule_reserved mf s)"
  by (simp add: rule_reserved_def details_wf_intros)

lemma details_wf_rule_owes_return:
  "details_wf mf s \<Longrightarrow> details_wf mf (rule_owes_return mf s)"
  by (simp add: rule_owes_return_def details_wf_intros)

lemma details_wf_rule_no_exceptions:
  "details_wf mf s \<Longrightarrow> details_wf mf (rule_no_exceptions s)"
  by (simp add: rule_no_exceptions_def details_wf_push_blurb)

lemma details_wf_analyzeOrder_locals:
  "details_wf (normalize_attributes ord) (analyzeOrder_locals now ord)"
  unfolding analyzeOrder_locals_unfold
  by (intro details_wf_rule_no_exceptions details_wf_rule_owes_return details_wf_rule_reserved
      details_wf_rule_needs_follow_up details_wf_rule_contact details_wf_rule_incoming
      details_wf_rule_arranged details_wf_rule_need_to_arrange details_wf_rule_fulfillment
      details_wf_init)

lemma distinct_map_comp: "distinct (map (g \<circ> f) xs) \<Longrightarrow> distinct (map f xs)"
  by (metis distinct_map comp_apply inj_on_def list.set_map image_iff map_map)


lemma val_blank: "blank_attribute m \<Longrightarrow> val m [] = []"
  by (auto simp: blank_attribute_def val_def Let_def split: option.splits)

lemma toUpperCase_Nil: "toUpperCase [] = []"
  by (simp add: toUpperCase_def)

lemma no_detail_for_blank:
  "details_wf mf s \<Longrightarrow> value_of_label mf l = [] \<Longrightarrow> l \<notin> d_label ` set (details s)"
  by (auto simp: details_wf_def list_all_iff)

lemma card_detailsAdded:
  assumes "details_wf mf s"
  shows "card (detailsAdded s) = length (details s)"
proof -
  from assms have d: "distinct (map detail_key (details s))"
    and e: "detailsAdded s = set (map detail_key (details s))"
    by (simp_all add: details_wf_def)
  show ?thesis unfolding e using distinct_card [OF d] by simp
qed

lemma addDetail_known_key: "key \<in> detailsAdded s \<Longrightarrow> addDetail key lbl v s = s"
  by (simp add: addDetail_def)

lemma addDetail_new_key:
  "v \<noteq> [] \<Longrightarrow> key \<notin> detailsAdded s \<Longrightarrow>
   details (addDetail key lbl v s) = details s @ [\<lparr>d_label = lbl, d_value = v\<rparr>] \<and>
   detailsAdded (addDetail key lbl v s) = insert key (detailsAdded s)"
  by (simp add: addDetail_def)

subsection \<open>The rules as a list of requests\<close>

lemma no_blurb_addDetail: "no_blurb (addDetail k l v s) = addDetail k l v (no_blurb s)"
  by (simp add: no_blurb_def addDetail_def)

lemma no_blurb_push_blurb: "no_blurb (push_blurb l s) = no_blurb s"
  by (simp add: no_blurb_def push_blurb_def)

lemma details_no_blurb: "details (no_blurb s) = details s"
  by (simp add: no_blurb_def)

lemma run_requests_Nil: "run_requests [] s = s"
  by (simp add: run_requests_def)

lemma run_requests_Cons: "run_requests ((k, l, v) # rs) s = run_requests rs (addDetail k l v s)"
  by (simp add: run_requests_def)

lemma run_requests_append: "run_requests (a @ b) s = run_requests b (run_requests a s)"
  by (simp add: run_requests_def)

lemmas run_simps =
  no_blurb_addDetail no_blurb_push_blurb run_requests_Nil run_requests_Cons Let_def

lemma requests_rule_fulfillment:
  "no_blurb (rule_fulfillment now ord mf f s) =
     run_requests (if f then [(''invoice'', ''Invoiced With'', mf_invoice mf)] else [])
       (no_blurb s)"
  by (simp add: rule_fulfillment_def run_simps)

lemma requests_rule_need_to_arrange:
  "no_blurb (rule_need_to_arrange mf f s) =
     run_requests
       (if isEq (mf_arrangeStatus mf) ''NEED TO ARRANGE''
        then [(''followUpNotes'', ''Follow-Up Notes'', mf_followUpNotes mf)] @
             (if \<not> f then [(''weeks'', ''Weeks Since Order'', mf_weeks mf)] else [])
        else [])
       (no_blurb s)"
  by (simp add: rule_need_to_arrange_def run_simps)

lemma requests_rule_arranged:
  "no_blurb (rule_arranged mf f s) =
     run_requests
       (if isEq (mf_arrangeStatus mf) ''ARRANGED'' \<and> \<not> isYes (mf_incoming mf) ''INCOMING''
        then [(''arrangedWith'', ''Arranged With'', mf_arrangedWith mf)] @
             (if \<not> f then [(''weeks'', ''Weeks Since Order'', mf_weeks mf)] else [])
        else [])
       (no_blurb s)"
  by (simp add: rule_arranged_def run_simps)

lemma requests_rule_incoming:
  "no_blurb (rule_incoming mf f s) =
     run_requests
       (if isYes (mf_incoming mf) ''INCOMING''
        then (if isEq (mf_arrangeStatus mf) ''ARRANGED''
              then [(''followUpNotes'', ''Follow-Up Notes'', mf_followUpNotes mf)] else []) @
             [(''invoice'', ''Invoiced With'', mf_invoice mf)] @
             (if \<not> f then [(''weeks'', ''Weeks Since Order'', mf_weeks mf)] else [])
        else [])
       (no_blurb s)"
  by (simp add: rule_incoming_def run_simps)

lemma requests_rule_contact:
  "no_blurb (rule_contact mf s) =
     run_requests
       (if isEq (mf_readyToContact mf) ''READY TO CONTACT''
        then [(''invoice'', ''Invoiced With'', mf_invoice mf)]
        else if isEq (mf_readyToContact mf) ''CONTACT LATER''
        then [(''weeks'', ''Weeks Since Order'', mf_weeks mf),
              (''invoice'', ''Invoiced With'', mf_invoice mf)]
        else [])
       (no_blurb s)"
  by (simp add: rule_contact_def run_simps)

lemma requests_rule_needs_follow_up:
  "no_blurb (rule_needs_follow_up mf s) =
     run_requests
       (if isEq (mf_needsFollowUp mf) ''NEEDS FOLLOW-UP''
        then [(''followUpNotes'', ''Follow-Up Notes'', mf_followUpNotes mf)] else [])
       (no_blurb s)"
  by (simp add: rule_needs_follow_up_def run_simps)

lemma requests_rule_reserved:
  "no_blurb (rule_reserved mf s) =
     run_requests
       (if isEq (mf_reserveIncoming mf) ''RESERVED INCOMING INVENTORY''
        then [(''arrangedWith'', ''Arranged/Reserved With'', mf_arrangedWith mf)] else [])
       (no_blurb s)"
  by (simp add: rule_reserved_def run_simps)

lemma requests_rule_owes_return:
  "no_blurb (rule_owes_return mf s) =
     run_requests
       (if isEq (mf_owesReturn mf) ''OWES RETURN''
        then [(''returnNotes'', ''Return Notes'', mf_returnNotes mf)] else [])
       (no_blurb s)"
  by (simp add: rule_owes_return_def run_simps)

lemma requests_rule_no_exceptions: "no_blurb (rule_no_exceptions s) = no_blurb s"
  by (simp add: rule_no_exceptions_def no_blurb_push_blurb)

lemmas requests_rules =
  requests_rule_fulfillment requests_rule_need_to_arrange requests_rule_arranged
  requests_rule_incoming requests_rule_contact requests_rule_needs_follow_up
  requests_rule_reserved requests_rule_owes_return requests_rule_no_exceptions

lemma analyzeOrder_locals_requests:
  "no_blurb (analyzeOrder_locals now ord) =
     run_requests (detail_requests (isFulfilled_of ord) (normalize_attributes ord))
       \<lparr>blurb = [], details = [], detailsAdded = {}\<rparr>"
proof -
  have "no_blurb \<lparr>blurb = [], details = [], detailsAdded = {}\<rparr> =
      \<lparr>blurb = [], details = [], detailsAdded = {}\<rparr>"
    by (simp add: no_blurb_def)
  then show ?thesis
    unfolding analyzeOrder_locals_unfold requests_rules detail_requests_def
      run_requests_append
    by (simp only:)
qed

lemma well_keyed_detail_requests: "well_keyed (detail_requests f mf)"
  by (simp add: well_keyed_def detail_requests_def key_of_label_simps)

lemma keys_wf_addDetail: "keys_wf s \<Longrightarrow> key_of_label l = k \<Longrightarrow> keys_wf (addDetail k l v s)"
  by (auto simp: keys_wf_def addDetail_def detail_key_def)

lemma filter_key_fresh:
  "keys_wf s \<Longrightarrow> key \<notin> detailsAdded s \<Longrightarrow> filter (\<lambda>d. detail_key d = key) (details s) = []"
  by (auto simp: keys_wf_def filter_empty_conv)

lemma run_requests_first:
  "keys_wf s \<Longrightarrow> well_keyed rs \<Longrightarrow>
   filter (\<lambda>d. detail_key d = key) (details (run_requests rs s)) =
     (if key \<in> detailsAdded s then filter (\<lambda>d. detail_key d = key) (details s)
      else (case first_request key rs of
              None \<Rightarrow> []
            | Some (k, l, v) \<Rightarrow> [\<lparr>d_label = l, d_value = v\<rparr>]))"
proof (induction rs arbitrary: s)
  case Nil
  then show ?case
    by (simp add: run_requests_Nil first_request_def filter_key_fresh)
next
  case (Cons r rs)
  obtain k l v where r: "r = (k, l, v)" by (cases r) auto
  from Cons.prems(2) have kl: "key_of_label l = k" and wk: "well_keyed rs"
    by (simp_all add: well_keyed_def r)
  let ?s' = "addDetail k l v s"
  have wf': "keys_wf ?s'" by (rule keys_wf_addDetail [OF Cons.prems(1) kl])
  note IH = Cons.IH [OF wf' wk]
  show ?case
  proof (cases "v = [] \<or> k \<in> detailsAdded s")
    case True
    then have same: "?s' = s" by (auto simp: addDetail_def)
    from True have "key \<notin> detailsAdded s \<Longrightarrow> first_request key (r # rs) = first_request key rs"
      by (auto simp: first_request_def r)
    with IH show ?thesis
      unfolding r run_requests_Cons same by simp
  next
    case False
    then have v: "v \<noteq> []" and fresh: "k \<notin> detailsAdded s" by simp_all
    have d': "details ?s' = details s @ [\<lparr>d_label = l, d_value = v\<rparr>]"
      and a': "detailsAdded ?s' = insert k (detailsAdded s)"
      using v fresh by (simp_all add: addDetail_def)
    show ?thesis
    proof (cases "key = k")
      case True
      with fresh have "filter (\<lambda>d. detail_key d = key) (details s) = []"
        using filter_key_fresh [OF Cons.prems(1)] by simp
      moreover have "first_request key (r # rs) = Some (k, l, v)"
        using True v by (simp add: first_request_def r)
      ultimately show ?thesis
        using IH True fresh kl
        unfolding r run_requests_Cons by (simp add: d' a' detail_key_def)
    next
      case False
      then have "first_request key (r # rs) = first_request key rs"
        by (simp add: first_request_def r)
      moreover have "filter (\<lambda>d. detail_key d = key) (details ?s') =
          filter (\<lambda>d. detail_key d = key) (details s)"
        using False kl by (auto simp: d' detail_key_def)
      ultimately show ?thesis
        using IH False
        unfolding r run_requests_Cons by (simp add: a')
    qed
  qed
qed

lemma details_analyzeOrder_first:
  "filter (\<lambda>d. detail_key d = key) (details (analyzeOrder_locals now ord)) =
     (case first_request key (detail_requests (isFulfilled_of ord) (normalize_attributes ord)) of
        None \<Rightarrow> []
      | Some (k, l, v) \<Rightarrow> [\<lparr>d_label = l, d_value = v\<rparr>])"
proof -
  let ?s0 = "\<lparr>blurb = [], details = [], detailsAdded = {}\<rparr>"
  let ?rs = "detail_requests (isFulfilled_of ord) (normalize_attributes ord)"
  have "details (analyzeOrder_locals now ord) = details (no_blurb (analyzeOrder_locals now ord))"
    by (simp add: details_no_blurb)
  then have d: "details (analyzeOrder_locals now ord) = details (run_requests ?rs ?s0)"
    by (simp only: analyzeOrder_locals_requests)
  have "keys_wf ?s0" by (simp add: keys_wf_def)
  from run_requests_first [OF this well_keyed_detail_requests, of key "isFulfilled_of ord"
      "normalize_attributes ord"]
  show ?thesis unfolding d by simp
qed


text \<open>
  C2. No two entries of the detail list \<open>analyzeOrder\<close> returns have the same dedup
  key (nor the same label), and the keys recorded in \<open>detailsAdded\<close> are those of
  the entries, one entry each. Under every key the list holds nothing when no request for
  that key carries a value, and otherwise exactly one entry: the label and value of the
  first request for that key, in the order of the rules, that carries a value. Later
  requests for the key leave no entry.
\<close>

theorem first_request_wins:
  "distinct (map detail_key (details_out (analyzeOrder cfg now ord))) \<and>
   distinct (map d_label (details_out (analyzeOrder cfg now ord))) \<and>
   detailsAdded (analyzeOrder_locals now ord) =
     set (map detail_key (details_out (analyzeOrder cfg now ord))) \<and>
   card (detailsAdded (analyzeOrder_locals now ord)) =
     length (details_out (analyzeOrder cfg now ord)) \<and>
   filter (\<lambda>d. detail_key d = key) (details_out (analyzeOrder cfg now ord)) =
     (case first_request key
             (detail_requests (isFulfilled_of ord) (normalize_attributes ord)) of
        None \<Rightarrow> []
      | Some (k, l, v) \<Rightarrow> [\<lparr>d_label = l, d_value = v\<rparr>])"
proof -
  let ?s = "analyzeOrder_locals now ord"
  have wf: "details_wf (normalize_attributes ord) ?s"
    by (rule details_wf_analyzeOrder_locals)
  then have d: "distinct (map detail_key (details ?s))"
    and e: "detailsAdded ?s = set (map detail_key (details ?s))"
    by (simp_all add: details_wf_def)
  have "map detail_key (details ?s) = map (key_of_label \<circ> d_label) (details ?s)"
    by (simp add: detail_key_def comp_def)
  with d have l: "distinct (map d_label (details ?s))"
    by (simp add: distinct_map_comp)
  show ?thesis
    unfolding details_out_analyzeOrder
    by (intro conjI d l e card_detailsAdded [OF wf] details_analyzeOrder_first)
qed

lemma sample_requests:
  "detail_requests (isFulfilled_of reserved_order) (normalize_attributes reserved_order) =
     [(''arrangedWith'', ''Arranged With'', ''Acme Co''),
      (''weeks'', ''Weeks Since Order'', []),
      (''arrangedWith'', ''Arranged/Reserved With'', ''Acme Co'')]"
  "detail_requests (isFulfilled_of follow_up_order) (normalize_attributes follow_up_order) =
     [(''followUpNotes'', ''Follow-Up Notes'', ''call back''),
      (''weeks'', ''Weeks Since Order'', ''3.5''),
      (''followUpNotes'', ''Follow-Up Notes'', ''call back'')]"
  by code_simp+

theorem first_request_wins_witness:
  "filter (\<lambda>d. detail_key d = ''arrangedWith'')
       (details_out (analyzeOrder sample_config 0 reserved_order)) =
     [\<lparr>d_label = ''Arranged With'', d_value = ''Acme Co''\<rparr>] \<and>
   filter (\<lambda>d. detail_key d = ''weeks'')
       (details_out (analyzeOrder sample_config 0 reserved_order)) = [] \<and>
   filter (\<lambda>d. detail_key d = ''followUpNotes'')
       (details_out (analyzeOrder sample_config 0 follow_up_order)) =
     [\<lparr>d_label = ''Follow-Up Notes'', d_value = ''call back''\<rparr>] \<and>
   filter (\<lambda>d. detail_key d = ''weeks'')
       (details_out (analyzeOrder sample_config 0 follow_up_order)) =
     [\<lparr>d_label = ''Weeks Since Order'', d_value = ''3.5''\<rparr>]"
  using first_request_wins [of sample_config 0 reserved_order "''arrangedWith''"]
    first_request_wins [of sample_config 0 reserved_order "''weeks''"]
    first_request_wins [of sample_config 0 follow_up_order "''followUpNotes''"]
    first_request_wins [of sample_config 0 follow_up_order "''weeks''"]
  by (simp add: sample_requests first_request_def)

section \<open>The fallback line\<close>

lemma isEq_Nil: "isEq [] (c # cs) = False"
  by (simp add: isEq_def toUpperCase_def)

lemma isYes_Nil: "isYes [] (c # cs) = False"
  by (simp add: isYes_def toUpperCase_def)

lemmas fixed_lines_distinct = distinct_fixed_lines [unfolded fixed_lines_def, simplified]

lemma no_exceptions_not_rule_line: "line_no_exceptions \<notin> set (rule_lines mf)"
  using fixed_lines_distinct by (auto simp: rule_lines_def)

lemma rule_lines_fixed: "set (rule_lines mf) \<subseteq> set fixed_lines"
  by (auto simp: rule_lines_def fixed_lines_def)

lemma rule_lines_quiet: "\<not> other_rule_fires mf \<Longrightarrow> rule_lines mf = []"
  by (auto simp: other_rule_fires_def rule_lines_def)

lemma in_blurbLines_fixed:
  "l \<in> set fixed_lines \<Longrightarrow>
   l \<in> set (blurbLines (analyzeOrder cfg now ord)) \<longleftrightarrow> l \<in> set (rule_lines (normalize_attributes ord))"
  using fulfillment_line_not_fixed [of now ord] by (auto simp: blurbLines_analyzeOrder)

text \<open>
  C1, amended. \<open>analyzeOrder\<close> appends the fallback line only to an empty narrative,
  and rule 1 always contributes a line: the fallback line is never part of the narrative,
  and an order on which no rule besides rule 1 fires gets exactly the line of rule 1.
\<close>

theorem fallback_line_unreachable:
  "line_no_exceptions \<notin> set (blurbLines (analyzeOrder cfg now ord)) \<and>
   (\<not> other_rule_fires (normalize_attributes ord) \<longrightarrow>
      blurbLines (analyzeOrder cfg now ord) =
        [if isFulfilled_of ord
         then line_fulfilled (weeksSince now (mostRecentFulfillmentAt ord))
         else line_not_fulfilled (mf_weeks (normalize_attributes ord))])"
proof (intro conjI impI)
  have "line_no_exceptions \<in> set fixed_lines" by (simp add: fixed_lines_def)
  then show "line_no_exceptions \<notin> set (blurbLines (analyzeOrder cfg now ord))"
    by (simp add: in_blurbLines_fixed no_exceptions_not_rule_line)
next
  assume "\<not> other_rule_fires (normalize_attributes ord)"
  then show "blurbLines (analyzeOrder cfg now ord) =
        [if isFulfilled_of ord
         then line_fulfilled (weeksSince now (mostRecentFulfillmentAt ord))
         else line_not_fulfilled (mf_weeks (normalize_attributes ord))]"
    by (simp add: blurbLines_analyzeOrder rule_lines_quiet fulfillment_line_def)
qed

lemma normalize_blank_order:
  "normalize_attributes blank_order =
     \<lparr> mf_weeks = [], mf_arrangeStatus = [], mf_arrangedWith = [], mf_incoming = [],
       mf_reserveIncoming = [], mf_readyToContact = [], mf_needsFollowUp = [],
       mf_followUpNotes = [], mf_owesReturn = [], mf_returnNotes = [], mf_invoice = [] \<rparr>"
  by (simp add: normalize_attributes_def blank_order_def val_def toUpperCase_def)

lemma blank_order_quiet: "\<not> other_rule_fires (normalize_attributes blank_order)"
  by (simp add: normalize_blank_order other_rule_fires_def isEq_Nil isYes_Nil)

lemma blank_order_weeks: "mf_weeks (normalize_attributes blank_order) = []"
  by (simp add: normalize_blank_order)

lemma blank_order_not_fulfilled: "\<not> isFulfilled_of blank_order"
  by (simp add: isFulfilled_of_def blank_order_def or_else_def glyph_dash_def toUpperCase_def)

theorem fallback_line_unreachable_witness:
  "\<not> other_rule_fires (normalize_attributes blank_order) \<and>
   blurbLines (analyzeOrder sample_config 0 blank_order) = [line_not_fulfilled []]"
  using fallback_line_unreachable [of sample_config 0 blank_order]
  by (simp add: blank_order_quiet blank_order_not_fulfilled blank_order_weeks)

text \<open>
  The order with no attribute set and no fulfillment status: no rule besides rule 1
  fires, and the narrative is the single line "not yet fulfilled (age unknown)", not
  followed by the fallback line.
\<close>

theorem sentinel_counterexample:
  "\<not> other_rule_fires (normalize_attributes blank_order) \<and>
   blurbLines (analyzeOrder sample_config 0 blank_order) = [line_not_fulfilled []] \<and>
   last (blurbLines (analyzeOrder sample_config 0 blank_order)) \<noteq> line_no_exceptions"
proof -
  have b: "blurbLines (analyzeOrder sample_config 0 blank_order) = [line_not_fulfilled []]"
    by (simp add: blurbLines_analyzeOrder rule_lines_quiet blank_order_quiet fulfillment_line_def
        blank_order_not_fulfilled blank_order_weeks)
  have "line_not_fulfilled [] \<noteq> line_no_exceptions"
    using line_not_fulfilled_not_fixed [of "[]"] by (auto simp: fixed_lines_def)
  with b blank_order_quiet show ?thesis by simp
qed

section \<open>Blank attributes\<close>

lemma in_rule_lines:
  "line_need_to_arrange \<in> set (rule_lines mf) \<longleftrightarrow> isEq (mf_arrangeStatus mf) ''NEED TO ARRANGE''"
  "line_arranged \<in> set (rule_lines mf) \<longleftrightarrow>
     isEq (mf_arrangeStatus mf) ''ARRANGED'' \<and> \<not> isYes (mf_incoming mf) ''INCOMING''"
  "line_partially_incoming \<in> set (rule_lines mf) \<longleftrightarrow>
     isYes (mf_incoming mf) ''INCOMING'' \<and> isEq (mf_arrangeStatus mf) ''ARRANGED''"
  "line_incoming \<in> set (rule_lines mf) \<longleftrightarrow>
     isYes (mf_incoming mf) ''INCOMING'' \<and> \<not> isEq (mf_arrangeStatus mf) ''ARRANGED''"
  "line_ready_to_contact \<in> set (rule_lines mf) \<longleftrightarrow>
     isEq (mf_readyToContact mf) ''READY TO CONTACT''"
  "line_contact_later \<in> set (rule_lines mf) \<longleftrightarrow>
     \<not> isEq (mf_readyToContact mf) ''READY TO CONTACT'' \<and>
     isEq (mf_readyToContact mf) ''CONTACT LATER''"
  "line_needs_follow_up \<in> set (rule_lines mf) \<longleftrightarrow> isEq (mf_needsFollowUp mf) ''NEEDS FOLLOW-UP''"
  "line_reserved \<in> set (rule_lines mf) \<longleftrightarrow>
     isEq (mf_reserveIncoming mf) ''RESERVED INCOMING INVENTORY''"
  "line_owes_return \<in> set (rule_lines mf) \<longleftrightarrow> isEq (mf_owesReturn mf) ''OWES RETURN''"
  using fixed_lines_distinct by (auto simp: rule_lines_def)

lemma in_blurbLines:
  "line_need_to_arrange \<in> set (blurbLines (analyzeOrder cfg now ord)) \<longleftrightarrow>
     line_need_to_arrange \<in> set (rule_lines (normalize_attributes ord))"
  "line_arranged \<in> set (blurbLines (analyzeOrder cfg now ord)) \<longleftrightarrow>
     line_arranged \<in> set (rule_lines (normalize_attributes ord))"
  "line_partially_incoming \<in> set (blurbLines (analyzeOrder cfg now ord)) \<longleftrightarrow>
     line_partially_incoming \<in> set (rule_lines (normalize_attributes ord))"
  "line_incoming \<in> set (blurbLines (analyzeOrder cfg now ord)) \<longleftrightarrow>
     line_incoming \<in> set (rule_lines (normalize_attributes ord))"
  "line_ready_to_contact \<in> set (blurbLines (analyzeOrder cfg now ord)) \<longleftrightarrow>
     line_ready_to_contact \<in> set (rule_lines (normalize_attributes ord))"
  "line_contact_later \<in> set (blurbLines (analyzeOrder cfg now ord)) \<longleftrightarrow>
     line_contact_later \<in> set (rule_lines (normalize_attributes ord))"
  "line_needs_follow_up \<in> set (blurbLines (analyzeOrder cfg now ord)) \<longleftrightarrow>
     line_needs_follow_up \<in> set (rule_lines (normalize_attributes ord))"
  "line_reserved \<in> set (blurbLines (analyzeOrder cfg now ord)) \<longleftrightarrow>
     line_reserved \<in> set (rule_lines (normalize_attributes ord))"
  "line_owes_return \<in> set (blurbLines (analyzeOrder cfg now ord)) \<longleftrightarrow>
     line_owes_return \<in> set (rule_lines (normalize_attributes ord))"
  by (rule in_blurbLines_fixed, simp add: fixed_lines_def)+

lemma normalize_blank:
  "blank_attribute (weeksSinceOrder ord) \<Longrightarrow> mf_weeks (normalize_attributes ord) = []"
  "blank_attribute (arrangeStatus ord) \<Longrightarrow> mf_arrangeStatus (normalize_attributes ord) = []"
  "blank_attribute (arrangedWith ord) \<Longrightarrow> mf_arrangedWith (normalize_attributes ord) = []"
  "blank_attribute (incoming ord) \<Longrightarrow> mf_incoming (normalize_attributes ord) = []"
  "blank_attribute (reserveIncoming ord) \<Longrightarrow> mf_reserveIncoming (normalize_attributes ord) = []"
  "blank_attribute (readyToContact ord) \<Longrightarrow> mf_readyToContact (normalize_attributes ord) = []"
  "blank_attribute (needsFollowUp ord) \<Longrightarrow> mf_needsFollowUp (normalize_attributes ord) = []"
  "blank_attribute (followUpNotes ord) \<Longrightarrow> mf_followUpNotes (normalize_attributes ord) = []"
  "blank_attribute (owesReturn ord) \<Longrightarrow> mf_owesReturn (normalize_attributes ord) = []"
  "blank_attribute (returnNotes ord) \<Longrightarrow> mf_returnNotes (normalize_attributes ord) = []"
  "blank_attribute (invoicedWith ord) \<Longrightarrow> mf_invoice (normalize_attributes ord) = []"
  by (simp_all add: normalize_attributes_def val_blank toUpperCase_Nil)

lemma no_detail_out_for_blank:
  "value_of_label (normalize_attributes ord) l = [] \<Longrightarrow>
   l \<notin> d_label ` set (details_out (analyzeOrder cfg now ord))"
  unfolding details_out_analyzeOrder
  by (rule no_detail_for_blank [OF details_wf_analyzeOrder_locals])

text \<open>
  C5. When an attribute is missing or blank, the detail list has no entry under a label
  that shows this attribute, and the narrative has no line of a rule whose condition
  tests this attribute for one of its enum values: the blank value normalizes to the
  empty string, which equals no enum constant.
\<close>

theorem blank_attribute_suppressed:
  "(blank_attribute (weeksSinceOrder ord) \<longrightarrow>
      ''Weeks Since Order'' \<notin> d_label ` set (details_out (analyzeOrder cfg now ord))) \<and>
   (blank_attribute (arrangedWith ord) \<longrightarrow>
      ''Arranged With'' \<notin> d_label ` set (details_out (analyzeOrder cfg now ord)) \<and>
      ''Arranged/Reserved With'' \<notin> d_label ` set (details_out (analyzeOrder cfg now ord))) \<and>
   (blank_attribute (followUpNotes ord) \<longrightarrow>
      ''Follow-Up Notes'' \<notin> d_label ` set (details_out (analyzeOrder cfg now ord))) \<and>
   (blank_attribute (returnNotes ord) \<longrightarrow>
      ''Return Notes'' \<notin> d_label ` set (details_out (analyzeOrder cfg now ord))) \<and>
   (blank_attribute (invoicedWith ord) \<longrightarrow>
      ''Invoiced With'' \<notin> d_label ` set (details_out (analyzeOrder cfg now ord))) \<and>
   (blank_attribute (arrangeStatus ord) \<longrightarrow>
      line_need_to_arrange \<notin> set (blurbLines (analyzeOrder cfg now ord)) \<and>
      line_arranged \<notin> set (blurbLines (analyzeOrder cfg now ord)) \<and>
      line_partially_incoming \<notin> set (blurbLines (analyzeOrder cfg now ord))) \<and>
   (blank_attribute (incoming ord) \<longrightarrow>
      line_incoming \<notin> set (blurbLines (analyzeOrder cfg now ord)) \<and>
      line_partially_incoming \<notin> set (blurbLines (analyzeOrder cfg now ord))) \<and>
   (blank_attribute (readyToContact ord) \<longrightarrow>
      line_ready_to_contact \<notin> set (blurbLines (analyzeOrder cfg now ord)) \<and>
      line_contact_later \<notin> set (blurbLines (analyzeOrder cfg now ord))) \<and>
   (blank_attribute (needsFollowUp ord) \<longrightarrow>
      line_needs_follow_up \<notin> set (blurbLines (analyzeOrder cfg now ord))) \<and>
   (blank_attribute (reserveIncoming ord) \<longrightarrow>
      line_reserved \<notin> set (blurbLines (analyzeOrder cfg now ord))) \<and>
   (blank_attribute (owesReturn ord) \<longrightarrow>
      line_owes_return \<notin> set (blurbLines (analyzeOrder cfg now ord))) \<and>
   (blank_attribute m \<longrightarrow>
      val m [] = [] \<and> \<not> isEq (toUpperCase (val m [])) (c # cs) \<and>
      \<not> isYes (toUpperCase (val m [])) (c # cs))"
proof (intro conjI impI)
  assume "blank_attribute (weeksSinceOrder ord)"
  then show "''Weeks Since Order'' \<notin> d_label ` set (details_out (analyzeOrder cfg now ord))"
    by (intro no_detail_out_for_blank) (simp add: value_of_label_simps normalize_blank)
next
  assume b: "blank_attribute (arrangedWith ord)"
  then show "''Arranged With'' \<notin> d_label ` set (details_out (analyzeOrder cfg now ord))"
    by (intro no_detail_out_for_blank) (simp add: value_of_label_simps normalize_blank)
  from b show "''Arranged/Reserved With'' \<notin> d_label ` set (details_out (analyzeOrder cfg now ord))"
    by (intro no_detail_out_for_blank) (simp add: value_of_label_simps normalize_blank)
next
  assume "blank_attribute (followUpNotes ord)"
  then show "''Follow-Up Notes'' \<notin> d_label ` set (details_out (analyzeOrder cfg now ord))"
    by (intro no_detail_out_for_blank) (simp add: value_of_label_simps normalize_blank)
next
  assume "blank_attribute (returnNotes ord)"
  then show "''Return Notes'' \<notin> d_label ` set (details_out (analyzeOrder cfg now ord))"
    by (intro no_detail_out_for_blank) (simp add: value_of_label_simps normalize_blank)
next
  assume "blank_attribute (invoicedWith ord)"
  then show "''Invoiced With'' \<notin> d_label ` set (details_out (analyzeOrder cfg now ord))"
    by (intro no_detail_out_for_blank) (simp add: value_of_label_simps normalize_blank)
next
  assume b: "blank_attribute (arrangeStatus ord)"
  then show "line_need_to_arrange \<notin> set (blurbLines (analyzeOrder cfg now ord))"
    by (simp add: in_blurbLines in_rule_lines normalize_blank isEq_Nil)
  from b show "line_arranged \<notin> set (blurbLines (analyzeOrder cfg now ord))"
    by (simp add: in_blurbLines in_rule_lines normalize_blank isEq_Nil)
  from b show "line_partially_incoming \<notin> set (blurbLines (analyzeOrder cfg now ord))"
    by (simp add: in_blurbLines in_rule_lines normalize_blank isEq_Nil)
next
  assume b: "blank_attribute (incoming ord)"
  then show "line_incoming \<notin> set (blurbLines (analyzeOrder cfg now ord))"
    by (simp add: in_blurbLines in_rule_lines normalize_blank isYes_Nil)
  from b show "line_partially_incoming \<notin> set (blurbLines (analyzeOrder cfg now ord))"
    by (simp add: in_blurbLines in_rule_lines normalize_blank isYes_Nil)
next
  assume b: "blank_attribute (readyToContact ord)"
  then show "line_ready_to_contact \<notin> set (blurbLines (analyzeOrder cfg now ord))"
    by (simp add: in_blurbLines in_rule_lines normalize_blank isEq_Nil)
  from b show "line_contact_later \<notin> set (blurbLines (analyzeOrder cfg now ord))"
    by (simp add: in_blurbLines in_rule_lines normalize_blank isEq_Nil)
next
  assume "blank_attribute (needsFollowUp ord)"
  then show "line_needs_follow_up \<notin> set (blurbLines (analyzeOrder cfg now ord))"
    by (simp add: in_blurbLines in_rule_lines normalize_blank isEq_Nil)
next
  assume "blank_attribute (reserveIncoming ord)"
  then show "line_reserved \<notin> set (blurbLines (analyzeOrder cfg now ord))"
    by (simp add: in_blurbLines in_rule_lines normalize_blank isEq_Nil)
next
  assume "blank_attribute (owesReturn ord)"
  then show "line_owes_return \<notin> set (blurbLines (analyzeOrder cfg now ord))"
    by (simp add: in_blurbLines in_rule_lines normalize_blank isEq_Nil)
next
  assume b: "blank_attribute m"
  then show "val m [] = []" by (rule val_blank)
  from b show "\<not> isEq (toUpperCase (val m [])) (c # cs)"
    by (simp add: val_blank toUpperCase_Nil isEq_Nil)
  from b show "\<not> isYes (toUpperCase (val m [])) (c # cs)"
    by (simp add: val_blank toUpperCase_Nil isYes_Nil)
qed

lemma normalize_reserved_order:
  "mf_arrangeStatus (normalize_attributes reserved_order) = ''ARRANGED''"
  "mf_arrangedWith (normalize_attributes reserved_order) = ''Acme Co''"
  "mf_reserveIncoming (normalize_attributes reserved_order) = ''RESERVED INCOMING INVENTORY''"
  "mf_incoming (normalize_attributes reserved_order) = []"
  by code_simp+

lemma reserved_order_blank:
  "blank_attribute (incoming reserved_order)"
  "blank_attribute (invoicedWith reserved_order)"
  by (simp_all add: reserved_order_def blank_order_def blank_attribute_def)

theorem blank_attribute_suppressed_witness:
  "blank_attribute (incoming reserved_order) \<and>
   line_incoming \<notin> set (blurbLines (analyzeOrder sample_config 0 reserved_order)) \<and>
   line_partially_incoming \<notin> set (blurbLines (analyzeOrder sample_config 0 reserved_order)) \<and>
   blank_attribute (invoicedWith reserved_order) \<and>
   ''Invoiced With'' \<notin> d_label ` set (details_out (analyzeOrder sample_config 0 reserved_order))"
  using blank_attribute_suppressed [of reserved_order sample_config 0 "incoming reserved_order"]
  by (simp add: reserved_order_blank)

section \<open>The shared key of rules 3 and 7\<close>

lemma detailsAdded_push_blurb: "detailsAdded (push_blurb l s) = detailsAdded s"
  by (simp add: push_blurb_def)

lemma details_push_blurb: "details (push_blurb l s) = details s"
  by (simp add: push_blurb_def)

lemma detailsAdded_addDetail_other:
  "k' \<noteq> k \<Longrightarrow> k' \<in> detailsAdded (addDetail k l v s) \<longleftrightarrow> k' \<in> detailsAdded s"
  by (simp add: addDetail_def)

lemma details_addDetail_mono: "x \<in> set (details s) \<Longrightarrow> x \<in> set (details (addDetail k l v s))"
  by (simp add: addDetail_def)

lemma arrangedWith_fresh_rule_fulfillment:
  "''arrangedWith'' \<notin> detailsAdded s \<Longrightarrow>
   ''arrangedWith'' \<notin> detailsAdded (rule_fulfillment now ord mf f s)"
  by (simp add: rule_fulfillment_def Let_def detailsAdded_addDetail_other detailsAdded_push_blurb)

lemma arrangedWith_fresh_rule_need_to_arrange:
  "''arrangedWith'' \<notin> detailsAdded s \<Longrightarrow>
   ''arrangedWith'' \<notin> detailsAdded (rule_need_to_arrange mf f s)"
  by (simp add: rule_need_to_arrange_def Let_def detailsAdded_addDetail_other
      detailsAdded_push_blurb)

lemma rule_arranged_adds:
  "isEq (mf_arrangeStatus mf) ''ARRANGED'' \<Longrightarrow> \<not> isYes (mf_incoming mf) ''INCOMING'' \<Longrightarrow>
   mf_arrangedWith mf \<noteq> [] \<Longrightarrow> ''arrangedWith'' \<notin> detailsAdded s \<Longrightarrow>
   \<lparr>d_label = ''Arranged With'', d_value = mf_arrangedWith mf\<rparr>
     \<in> set (details (rule_arranged mf f s))"
  by (simp add: rule_arranged_def Let_def addDetail_def push_blurb_def)

lemmas details_mono_simps = details_addDetail_mono details_push_blurb Let_def

lemma details_mono_rule_incoming:
  "x \<in> set (details s) \<Longrightarrow> x \<in> set (details (rule_incoming mf f s))"
  by (simp add: rule_incoming_def details_mono_simps)

lemma details_mono_rule_contact:
  "x \<in> set (details s) \<Longrightarrow> x \<in> set (details (rule_contact mf s))"
  by (simp add: rule_contact_def details_mono_simps)

lemma details_mono_rule_needs_follow_up:
  "x \<in> set (details s) \<Longrightarrow> x \<in> set (details (rule_needs_follow_up mf s))"
  by (simp add: rule_needs_follow_up_def details_mono_simps)

lemma details_mono_rule_reserved:
  "x \<in> set (details s) \<Longrightarrow> x \<in> set (details (rule_reserved mf s))"
  by (simp add: rule_reserved_def details_mono_simps)

lemma details_mono_rule_owes_return:
  "x \<in> set (details s) \<Longrightarrow> x \<in> set (details (rule_owes_return mf s))"
  by (simp add: rule_owes_return_def details_mono_simps)

lemma details_mono_rule_no_exceptions:
  "x \<in> set (details s) \<Longrightarrow> x \<in> set (details (rule_no_exceptions s))"
  by (simp add: rule_no_exceptions_def details_mono_simps)

lemma filter_distinct_key:
  "distinct (map f xs) \<Longrightarrow> x \<in> set xs \<Longrightarrow> filter (\<lambda>y. f y = f x) xs = [x]"
proof (induction xs)
  case Nil
  then show ?case by simp
next
  case (Cons a xs)
  show ?case
  proof (cases "a = x")
    case True
    with Cons.prems have "\<forall>y\<in>set xs. f y \<noteq> f x" by (auto simp: image_iff)
    then have "filter (\<lambda>y. f y = f x) xs = []" by (simp add: filter_empty_conv)
    with True show ?thesis by simp
  next
    case False
    with Cons.prems have "x \<in> set xs" and "f a \<noteq> f x" by auto
    with Cons show ?thesis by simp
  qed
qed

lemma arranged_entry_present:
  assumes "isEq (mf_arrangeStatus (normalize_attributes ord)) ''ARRANGED''"
    and "\<not> isYes (mf_incoming (normalize_attributes ord)) ''INCOMING''"
    and "mf_arrangedWith (normalize_attributes ord) \<noteq> []"
  shows "\<lparr>d_label = ''Arranged With'', d_value = mf_arrangedWith (normalize_attributes ord)\<rparr>
           \<in> set (details (analyzeOrder_locals now ord))"
  unfolding analyzeOrder_locals_unfold
  by (intro details_mono_rule_no_exceptions details_mono_rule_owes_return
      details_mono_rule_reserved details_mono_rule_needs_follow_up details_mono_rule_contact
      details_mono_rule_incoming rule_arranged_adds assms
      arrangedWith_fresh_rule_need_to_arrange arrangedWith_fresh_rule_fulfillment) simp

text \<open>
  C9. Rules 3 and 7 request the same key \<open>arrangedWith\<close>. For an order whose
  arrange-status is ARRANGED, whose incoming is not INCOMING, whose reserve-incoming is
  RESERVED INCOMING INVENTORY and whose arranged-with is not blank, both rules fire, the
  detail list has exactly one entry under that key, labelled "Arranged With" by rule 3,
  and no entry labelled "Arranged/Reserved With".
\<close>

theorem arranged_with_label_wins:
  assumes "isEq (mf_arrangeStatus (normalize_attributes ord)) ''ARRANGED''"
    and "\<not> isYes (mf_incoming (normalize_attributes ord)) ''INCOMING''"
    and "isEq (mf_reserveIncoming (normalize_attributes ord)) ''RESERVED INCOMING INVENTORY''"
    and "mf_arrangedWith (normalize_attributes ord) \<noteq> []"
  shows "filter (\<lambda>d. detail_key d = ''arrangedWith'') (details_out (analyzeOrder cfg now ord)) =
           [\<lparr>d_label = ''Arranged With'',
             d_value = mf_arrangedWith (normalize_attributes ord)\<rparr>] \<and>
         ''Arranged/Reserved With'' \<notin> d_label ` set (details_out (analyzeOrder cfg now ord)) \<and>
         line_arranged \<in> set (blurbLines (analyzeOrder cfg now ord)) \<and>
         line_reserved \<in> set (blurbLines (analyzeOrder cfg now ord))"
proof -
  let ?s = "analyzeOrder_locals now ord"
  let ?d = "\<lparr>d_label = ''Arranged With'', d_value = mf_arrangedWith (normalize_attributes ord)\<rparr>"
  have k: "detail_key ?d = ''arrangedWith''"
    by (simp add: detail_key_def key_of_label_simps)
  have "details_wf (normalize_attributes ord) ?s" by (rule details_wf_analyzeOrder_locals)
  then have dist: "distinct (map detail_key (details ?s))" by (simp add: details_wf_def)
  have mem: "?d \<in> set (details ?s)"
    by (rule arranged_entry_present [OF assms(1,2,4)])
  have f: "filter (\<lambda>d. detail_key d = ''arrangedWith'') (details ?s) = [?d]"
    using filter_distinct_key [OF dist mem] unfolding k .
  have n: "''Arranged/Reserved With'' \<notin> d_label ` set (details ?s)"
  proof
    assume "''Arranged/Reserved With'' \<in> d_label ` set (details ?s)"
    then obtain e where e: "e \<in> set (details ?s)" "d_label e = ''Arranged/Reserved With''"
      by auto
    then have "detail_key e = ''arrangedWith''"
      by (simp add: detail_key_def key_of_label_simps)
    with e(1) have "e \<in> set (filter (\<lambda>d. detail_key d = ''arrangedWith'') (details ?s))"
      by simp
    then have "e = ?d" unfolding f by simp
    with e(2) show False by simp
  qed
  show ?thesis
    unfolding details_out_analyzeOrder
    using f n assms by (simp add: in_blurbLines in_rule_lines)
qed

theorem arranged_with_label_wins_witness:
  "filter (\<lambda>d. detail_key d = ''arrangedWith'')
       (details_out (analyzeOrder sample_config 0 reserved_order)) =
     [\<lparr>d_label = ''Arranged With'', d_value = ''Acme Co''\<rparr>] \<and>
   ''Arranged/Reserved With''
     \<notin> d_label ` set (details_out (analyzeOrder sample_config 0 reserved_order)) \<and>
   line_arranged \<in> set (blurbLines (analyzeOrder sample_config 0 reserved_order)) \<and>
   line_reserved \<in> set (blurbLines (analyzeOrder sample_config 0 reserved_order))"
proof -
  have h: "isEq (mf_arrangeStatus (normalize_attributes reserved_order)) ''ARRANGED''"
    "\<not> isYes (mf_incoming (normalize_attributes reserved_order)) ''INCOMING''"
    "isEq (mf_reserveIncoming (normalize_attributes reserved_order)) ''RESERVED INCOMING INVENTORY''"
    "mf_arrangedWith (normalize_attributes reserved_order) \<noteq> []"
    by (simp_all add: normalize_reserved_order isEq_def isYes_def toUpperCase_Nil)
  from arranged_with_label_wins [OF h, of sample_config 0] show ?thesis
    by (simp add: normalize_reserved_order)
qed

section \<open>A round that raises\<close>

lemma order_loop_raise:
  assumes "round_raises cfg w ev k bad"
  shows "\<exists>err. order_loop cfg w ev k (bad # rest) = ([], Some (err, posts_made w k bad))"
proof (cases "getOrderByName (fetch w k bad)")
  case (Inl e)
  then show ?thesis by (simp add: posts_made_def lookup_raises_def)
next
  case (Inr found)
  with assms have "\<not> postMessage w k (reply_at cfg w ev k bad)"
    by (simp add: round_raises_def lookup_raises_def)
  with Inr show ?thesis
    by (cases found) (simp_all add: posts_made_def lookup_raises_def reply_at_def)
qed

lemma order_loop_pass:
  assumes "\<not> round_raises cfg w ev k a"
  shows "order_loop cfg w ev k (a # rest) =
           (case order_loop cfg w ev (Suc k) rest of
              (msgs, err) \<Rightarrow> (reply_at cfg w ev k a # msgs, err))"
proof -
  from assms obtain found where f: "getOrderByName (fetch w k a) = Inr found"
    by (cases "getOrderByName (fetch w k a)") (auto simp: round_raises_def lookup_raises_def)
  from assms have "postMessage w k (reply_at cfg w ev k a)"
    by (simp add: round_raises_def)
  with f show ?thesis
    by (cases found) (simp_all add: reply_at_def)
qed

lemma order_loop_stops:
  "\<forall>i<length pre. \<not> round_raises cfg w ev (k + i) (pre ! i) \<Longrightarrow>
   round_raises cfg w ev (k + length pre) bad \<Longrightarrow>
   \<exists>err. order_loop cfg w ev k (pre @ bad # rest) =
     (map (\<lambda>(i, n). reply_at cfg w ev i n) (enumerate k pre),
      Some (err, posts_made w (k + length pre) bad))"
proof (induction pre arbitrary: k)
  case Nil
  then show ?case using order_loop_raise [of cfg w ev k bad rest] by simp
next
  case (Cons a pre)
  from Cons.prems(1) have a: "\<not> round_raises cfg w ev k a" by force
  have "\<forall>i<length pre. \<not> round_raises cfg w ev (Suc k + i) (pre ! i)"
  proof (intro allI impI)
    fix i assume "i < length pre"
    then have "Suc i < length (a # pre)" by simp
    with Cons.prems(1) have "\<not> round_raises cfg w ev (k + Suc i) ((a # pre) ! Suc i)" by blast
    then show "\<not> round_raises cfg w ev (Suc k + i) (pre ! i)" by simp
  qed
  moreover from Cons.prems(2) have "round_raises cfg w ev (Suc k + length pre) bad" by simp
  ultimately obtain err where
    "order_loop cfg w ev (Suc k) (pre @ bad # rest) =
       (map (\<lambda>(i, n). reply_at cfg w ev i n) (enumerate (Suc k) pre),
        Some (err, posts_made w (Suc k + length pre) bad))"
    using Cons.IH [of "Suc k"] by blast
  then show ?case
    by (simp add: order_loop_pass [OF a] del: order_loop.simps)
qed

lemma reply_at_not_apology: "reply_at cfg w ev k n \<noteq> apology_message ev"
  by (simp add: reply_at_def summary_message_def not_found_message_def apology_message_def
      split: sum.splits option.splits)

lemma filter_replies_apology:
  "filter (\<lambda>m. m = apology_message ev)
     (map (\<lambda>(i, n). reply_at cfg w ev i n) (enumerate k pre)) = []"
  by (auto simp: filter_empty_conv reply_at_not_apology)

text \<open>
  C10, amended. The handler's \<open>catch\<close> encloses the whole loop over the identifiers
  of a message. When the round of one identifier raises (its lookup raises, or the post
  of its reply is rejected), the identifiers before it have got their replies, that
  identifier and those after it get none, one error is logged, and one apology is posted
  after the replies, unless the post of the apology is itself rejected: then the rejection
  is swallowed and no apology is posted. So at most one apology is posted.
\<close>

theorem one_apology_attempt_then_stop:
  assumes "\<not> truthy (ev_subtype ev)" and "truthy (ev_text ev)" and "\<not> truthy (ev_bot_id ev)"
    and "\<not> (truthy (LOCK_CHANNEL cfg) \<and> Some (ev_channel ev) \<noteq> LOCK_CHANNEL cfg)"
    and "matchAll (the (ev_text ev)) = pre @ bad # rest"
    and "\<forall>i<length pre. \<not> round_raises cfg w ev i (pre ! i)"
    and "round_raises cfg w ev (length pre) bad"
  shows "posted (on_message cfg w ev) =
           map (\<lambda>(i, n). reply_at cfg w ev i n) (enumerate 0 pre) @
           (if postMessage w (posts_made w (length pre) bad) (apology_message ev)
            then [apology_message ev] else []) \<and>
         filter (\<lambda>m. m = apology_message ev) (posted (on_message cfg w ev)) =
           (if postMessage w (posts_made w (length pre) bad) (apology_message ev)
            then [apology_message ev] else []) \<and>
         length (posted (on_message cfg w ev)) \<le> length pre + 1 \<and>
         length (logged (on_message cfg w ev)) = 1"
proof -
  from order_loop_stops [of pre cfg w ev 0 bad rest] assms(6,7)
  obtain err where loop: "order_loop cfg w ev 0 (pre @ bad # rest) =
      (map (\<lambda>(i, n). reply_at cfg w ev i n) (enumerate 0 pre),
       Some (err, posts_made w (length pre) bad))"
    by auto
  have p: "posted (on_message cfg w ev) =
      map (\<lambda>(i, n). reply_at cfg w ev i n) (enumerate 0 pre) @
      (if postMessage w (posts_made w (length pre) bad) (apology_message ev)
       then [apology_message ev] else [])"
    and l: "logged (on_message cfg w ev) = [err]"
    using assms(1-5) by (auto simp: on_message_def Let_def loop)
  show ?thesis
    unfolding p l by (simp add: filter_replies_apology)
qed

lemma sample_matches:
  "matchAll ''C#1001 then C#2002 and C#3003'' = [''C#1001''] @ ''C#2002'' # [''C#3003'']"
  by code_simp

lemma sample_event_passes:
  "\<not> truthy (ev_subtype sample_event)" "truthy (ev_text sample_event)"
  "\<not> truthy (ev_bot_id sample_event)"
  "\<not> (truthy (LOCK_CHANNEL sample_config) \<and>
      Some (ev_channel sample_event) \<noteq> LOCK_CHANNEL sample_config)"
  "matchAll (the (ev_text sample_event)) = [''C#1001''] @ ''C#2002'' # [''C#3003'']"
  using sample_matches by (simp_all add: truthy_def sample_event_def sample_config_def)

lemma sample_lookups:
  "getOrderByName (sample_fetch k ''C#1001'') = Inr None"
  "getOrderByName (sample_fetch k ''C#2002'') = Inl (ShopifyHTTP 500)"
  by (simp_all add: sample_fetch_def no_match_response_def failed_response_def
      getOrderByName_def order_of_body_def has_length_def first_node_def)

theorem one_apology_attempt_then_stop_witness:
  "posted (on_message sample_config sample_world sample_event) =
     [not_found_message sample_event ''C#1001'', apology_message sample_event] \<and>
   length (logged (on_message sample_config sample_world sample_event)) = 1"
proof -
  have ok: "\<forall>i<length [''C#1001'']. \<not> round_raises sample_config sample_world sample_event i
      ([''C#1001''] ! i)"
    by (simp add: round_raises_def lookup_raises_def sample_world_def sample_lookups)
  have bad: "round_raises sample_config sample_world sample_event (length [''C#1001'']) ''C#2002''"
    by (simp add: round_raises_def lookup_raises_def sample_world_def sample_lookups)
  have r: "reply_at sample_config sample_world sample_event 0 ''C#1001'' =
      not_found_message sample_event ''C#1001''"
    by (simp add: reply_at_def sample_world_def sample_lookups)
  have a: "postMessage sample_world k m" for k m
    by (simp add: sample_world_def)
  from one_apology_attempt_then_stop [OF sample_event_passes ok bad]
  show ?thesis
    by (simp add: r a enumerate_simps)
qed

text \<open>
  A chat service that rejects every post: the round of the first of three identifiers
  raises when its reply is rejected, the apology is rejected as well, and nothing is
  posted, so not one apology.
\<close>

theorem swallowed_apology_counterexample:
  "round_raises sample_config muted_world sample_event 0 ''C#1001'' \<and>
   matchAll (the (ev_text sample_event)) = [''C#1001'', ''C#2002'', ''C#3003''] \<and>
   posted (on_message sample_config muted_world sample_event) = [] \<and>
   filter (\<lambda>m. m = apology_message sample_event)
     (posted (on_message sample_config muted_world sample_event)) = []"
proof -
  have r: "round_raises sample_config muted_world sample_event 0 ''C#1001''"
    by (simp add: round_raises_def muted_world_def)
  have m: "matchAll (the (ev_text sample_event)) = [''C#1001'', ''C#2002'', ''C#3003'']"
    using sample_event_passes(5) by simp
  have "order_loop sample_config muted_world sample_event 0 [''C#1001'', ''C#2002'', ''C#3003'']
      = ([], Some (PostRejected, Suc 0))"
    by (simp add: muted_world_def sample_lookups)
  then have "posted (on_message sample_config muted_world sample_event) = []"
    using sample_event_passes(1-4) m by (simp add: on_message_def Let_def muted_world_def)
  with r m show ?thesis by simp
qed

section \<open>The identifier scan\<close>

lemma is_word_digit: "is_digit c \<Longrightarrow> is_word c"
  by (simp add: is_word_def)

lemma not_digit_C: "is_digit c \<Longrightarrow> c \<noteq> CHR ''C''"
  by (auto simp: is_digit_def)

lemma is_word_C: "is_word (CHR ''C'')"
  by (simp add: is_word_def is_upper_def)

lemma length_takeWhile_eq:
  "length (takeWhile P xs) = n \<longleftrightarrow>
     n \<le> length xs \<and> list_all P (take n xs) \<and> \<not> (case nth_opt xs n of None \<Rightarrow> False | Some x \<Rightarrow> P x)"
proof (induction xs arbitrary: n)
  case Nil
  then show ?case by (auto simp: nth_opt_def)
next
  case (Cons a xs)
  show ?case
  proof (cases n)
    case 0
    then show ?thesis by (auto simp: nth_opt_def)
  next
    case (Suc m)
    with Cons [of m] show ?thesis by (auto simp: nth_opt_def)
  qed
qed

lemma digits_then_boundary_iff:
  assumes "0 < n"
  shows "digits_then_boundary n rest \<longleftrightarrow>
     length (takeWhile is_digit rest) = n \<and> \<not> is_word_opt (nth_opt rest n)"
proof -
  have last_digit: "is_word_opt (nth_opt rest (n - 1))"
    if "n \<le> length rest" "list_all is_digit (take n rest)"
  proof -
    from that assms have "n - 1 < length rest" by simp
    moreover from that assms have "is_digit (rest ! (n - 1))"
      by (simp add: list_all_length)
    ultimately show ?thesis by (simp add: nth_opt_def is_word_opt_def is_word_digit)
  qed
  have not_word_not_digit: "\<not> (case nth_opt rest n of None \<Rightarrow> False | Some x \<Rightarrow> is_digit x)"
    if "\<not> is_word_opt (nth_opt rest n)"
    using that by (auto simp: is_word_opt_def is_word_digit split: option.splits)
  show ?thesis
    unfolding digits_then_boundary_def length_takeWhile_eq word_boundary_def
    using last_digit not_word_not_digit by auto
qed

lemma match_here_standalone: "match_here prev s = standalone_token prev s"
proof (cases s)
  case Nil
  then show ?thesis by (simp add: match_here_def standalone_token_def)
next
  case (Cons c1 s')
  show ?thesis
  proof (cases s')
    case Nil
    with Cons show ?thesis by (simp add: match_here_def standalone_token_def)
  next
    case (Cons c2 rest)
    have b: "word_boundary prev (Some (CHR ''C'')) \<longleftrightarrow> \<not> is_word_opt prev"
      by (simp add: word_boundary_def is_word_opt_def is_word_C)
    show ?thesis
      unfolding \<open>s = c1 # s'\<close> Cons
      by (auto simp: match_here_def standalone_token_def Let_def b digits_then_boundary_iff)
  qed
qed

lemma standalone_token_not_C: "c \<noteq> CHR ''C'' \<Longrightarrow> standalone_token prev (c # cs) = None"
  by (cases cs) (simp_all add: standalone_token_def Let_def)

lemma standalone_tokens_skip:
  "list_all (\<lambda>x. x \<noteq> CHR ''C'') (take (Suc k) xs) \<Longrightarrow> Suc k \<le> length xs \<Longrightarrow>
   standalone_tokens p xs = standalone_tokens (nth_opt xs k) (drop (Suc k) xs)"
proof (induction k arbitrary: p xs)
  case 0
  then obtain x xs' where "xs = x # xs'" by (cases xs) auto
  with 0 show ?case by (simp add: standalone_token_not_C nth_opt_def)
next
  case (Suc k)
  then obtain x xs' where x: "xs = x # xs'" by (cases xs) auto
  with Suc.prems have "list_all (\<lambda>x. x \<noteq> CHR ''C'') (take (Suc k) xs')" "Suc k \<le> length xs'"
    and "x \<noteq> CHR ''C''"
    by simp_all
  with Suc.IH [of xs' "Some x"] x show ?case
    by (simp add: standalone_token_not_C nth_opt_def)
qed

lemma standalone_token_shape:
  assumes "standalone_token prev (c # cs) = Some n"
  shows "Suc n \<le> length cs \<and> list_all (\<lambda>x. x \<noteq> CHR ''C'') (take (Suc n) cs) \<and>
         c = CHR ''C'' \<and> (n = 4 \<or> n = 5) \<and> (\<exists>ds. take (Suc n) cs = CHR ''#'' # ds \<and>
         length ds = n \<and> list_all is_digit ds)"
proof (cases cs)
  case Nil
  with assms show ?thesis by (simp add: standalone_token_def)
next
  case (Cons c2 rest)
  from assms have c: "c = CHR ''C''" "c2 = CHR ''#''" and n: "length (takeWhile is_digit rest) = n"
    and n45: "n = 4 \<or> n = 5"
    unfolding Cons by (auto simp: standalone_token_def Let_def split: if_splits)
  from n have l: "n \<le> length rest" and d: "list_all is_digit (take n rest)"
    by (simp_all add: length_takeWhile_eq)
  from d have "list_all (\<lambda>x. x \<noteq> CHR ''C'') (take n rest)"
    by (auto simp: list_all_iff not_digit_C)
  with c l d n45 show ?thesis unfolding Cons by simp
qed

lemma matchAll_from_standalone: "matchAll_from prev s = standalone_tokens prev s"
proof (induction prev s rule: matchAll_from.induct)
  case (1 prev)
  then show ?case by simp
next
  case (2 prev c cs)
  show ?case
  proof (cases "match_here prev (c # cs)")
    case None
    with 2 show ?thesis by (simp add: match_here_standalone [symmetric])
  next
    case (Some n)
    then have st: "standalone_token prev (c # cs) = Some n" by (simp add: match_here_standalone)
    from standalone_token_shape [OF st]
    have "Suc n \<le> length cs" "list_all (\<lambda>x. x \<noteq> CHR ''C'') (take (Suc n) cs)" by simp_all
    then have "standalone_tokens (Some c) cs = standalone_tokens (nth_opt cs n) (drop (Suc n) cs)"
      by (rule standalone_tokens_skip [rotated])
    with 2(2) [OF Some] Some st show ?thesis by simp
  qed
qed


lemma standalone_tokens_identifiers: "list_all is_identifier (standalone_tokens prev s)"
proof (induction s arbitrary: prev)
  case Nil
  then show ?case by simp
next
  case (Cons c cs)
  show ?case
  proof (cases "standalone_token prev (c # cs)")
    case None
    with Cons show ?thesis by simp
  next
    case (Some n)
    from standalone_token_shape [OF Some] obtain ds
      where "c = CHR ''C''" "n = 4 \<or> n = 5" "take (Suc n) cs = CHR ''#'' # ds" "length ds = n"
        "list_all is_digit ds"
      by blast
    then have "is_identifier (c # take (Suc n) cs)"
      by (auto simp: is_identifier_def)
    with Cons Some show ?thesis by simp
  qed
qed

text \<open>
  C8, amended. The identifier extraction returns, from left to right, exactly the
  substrings made of the letter, the marker and four or five digits that stand at word
  boundaries: not preceded by a word character, and with a digit run of exactly four or
  five that no word character follows. Matching is case-sensitive, and every match has
  the shape of an identifier.
\<close>

theorem matchAll_standalone_tokens:
  "matchAll txt = standalone_tokens None txt \<and> list_all is_identifier (matchAll txt)"
  by (simp add: matchAll_def matchAll_from_standalone standalone_tokens_identifiers)

theorem matchAll_standalone_tokens_witness:
  "matchAll ''see C#12345, xC#1234 and (C#0001)'' = [''C#12345'', ''C#0001'']"
proof -
  have e: "standalone_tokens None ''see C#12345, xC#1234 and (C#0001)'' = [''C#12345'', ''C#0001'']"
    by code_simp
  from matchAll_standalone_tokens [of "''see C#12345, xC#1234 and (C#0001)''"]
  show ?thesis unfolding e by (rule conjunct1)
qed

text \<open>
  The surrounding word context matters: a token glued to a preceding letter, or followed
  by a sixth digit, is a token of that shape inside the text, and is not extracted.
\<close>

theorem word_context_counterexample:
  "matchAll ''xC#1234'' = [] \<and> context_free_tokens ''xC#1234'' = [''C#1234''] \<and>
   matchAll ''C#123456'' = [] \<and> context_free_tokens ''C#123456'' = [''C#12345'']"
  by code_simp

end
